theory Spec2Isabelle
  imports Main "HOL-Library.Word" "HOL-Library.Log_Nat"
begin

section \<open>platereduce: work units and their assignment to jobs\<close>

text \<open>
  The program under study is \<^verbatim>\<open>src/vw/Plate/platereduce.cc\<close>. C++ \<^verbatim>\<open>int\<close> values
  (\<^verbatim>\<open>job_id\<close>, \<^verbatim>\<open>num_jobs\<close>, \<^verbatim>\<open>count\<close>, coordinates) are modelled as \<^typ>\<open>int\<close>;
  lemma \<open>assign_loop_count\<close> below shows that the loop counter of \<^verbatim>\<open>do_run\<close> stays
  within \<open>[0, num_jobs]\<close> when \<open>num_jobs \<ge> 1\<close>, so no 32-bit wrap-around can occur there.
\<close>

text \<open>\<^verbatim>\<open>BBox2i\<close>: an axis-aligned box of grid cells, lower corner inclusive, upper exclusive.\<close>

record BBox2i =
  bmin :: "int \<times> int"
  bmax :: "int \<times> int"

text \<open>The constructor \<^verbatim>\<open>BBox2i(minx, miny, width, height)\<close> used by \<^verbatim>\<open>do_run\<close>.\<close>

definition BBox2i_xywh :: "int \<Rightarrow> int \<Rightarrow> int \<Rightarrow> int \<Rightarrow> BBox2i" where
  "BBox2i_xywh minx miny w h = \<lparr>bmin = (minx, miny), bmax = (minx + w, miny + h)\<rparr>"

definition width :: "BBox2i \<Rightarrow> int" where
  "width b = fst (bmax b) - fst (bmin b)"

definition height :: "BBox2i \<Rightarrow> int" where
  "height b = snd (bmax b) - snd (bmin b)"

text \<open>
  The loop of \<^verbatim>\<open>do_run\<close> (lines 207-215) that picks this job's work units:
  \<^verbatim>\<open>
  std::list<BBox2i> mworkunits;
  int count = 0;
  BOOST_FOREACH(BBox2i c, workunits) {
    if (count==opt.num_jobs) count=0;
    if (count==opt.job_id)   mworkunits.push_back(c);
    count++;
  }
  \<close>
  The loop state is the pair of \<^verbatim>\<open>count\<close> and \<^verbatim>\<open>mworkunits\<close>; one iteration is
  \<open>assign_step\<close>, the whole loop is a left fold over \<^verbatim>\<open>workunits\<close>.
\<close>

record 'a assign_state =
  count :: int
  mworkunits :: "'a list"

definition assign_step :: "int \<Rightarrow> int \<Rightarrow> 'a assign_state \<Rightarrow> 'a \<Rightarrow> 'a assign_state" where
  "assign_step job_id num_jobs st c =
     (let count1 = (if count st = num_jobs then 0 else count st);
          m1 = (if count1 = job_id then mworkunits st @ [c] else mworkunits st)
      in \<lparr>count = count1 + 1, mworkunits = m1\<rparr>)"

definition assign_loop :: "int \<Rightarrow> int \<Rightarrow> 'a assign_state \<Rightarrow> 'a list \<Rightarrow> 'a assign_state" where
  "assign_loop job_id num_jobs st workunits = foldl (assign_step job_id num_jobs) st workunits"

definition assign :: "'a list \<Rightarrow> int \<Rightarrow> int \<Rightarrow> 'a list" where
  "assign workunits job_id num_jobs =
     mworkunits (assign_loop job_id num_jobs \<lparr>count = 0, mworkunits = []\<rparr> workunits)"

text \<open>
  Modelled from the spec: \<^verbatim>\<open>bbox_tiles\<close> is declared in \<^verbatim>\<open>vw/Plate/TileManipulation.h\<close>,
  which is not among the sources. Section 4.2 of the specification describes it as dividing
  the grid into a fixed coarse tiling of blocks that covers it exactly, the last row and
  column of blocks clipped to the grid boundary. The call is \<^verbatim>\<open>bbox_tiles(full_region,4,4)\<close>:
  blocks of \<open>w\<close> by \<open>h\<close> cells, listed row of blocks by row of blocks. The properties
  proved below use of this list only that no box occurs in it twice.
\<close>

definition block_starts :: "int \<Rightarrow> int \<Rightarrow> int \<Rightarrow> int list" where
  "block_starts lo hi step = map (\<lambda>i. lo + step * int i) [0 ..< nat ((hi - lo + step - 1) div step)]"

definition bbox_tiles :: "BBox2i \<Rightarrow> int \<Rightarrow> int \<Rightarrow> BBox2i list" where
  "bbox_tiles region w h =
     concat (map (\<lambda>y. map (\<lambda>x. BBox2i_xywh x y (min w (fst (bmax region) - x))
                                                   (min h (snd (bmax region) - y)))
                           (block_starts (fst (bmin region)) (fst (bmax region)) w))
                 (block_starts (snd (bmin region)) (snd (bmax region)) h))"

text \<open>\<^verbatim>\<open>BBox2i full_region(0,0,region_size,region_size)\<close> and the partition of \<^verbatim>\<open>do_run\<close>.\<close>

definition full_region :: "int \<Rightarrow> BBox2i" where
  "full_region region_size = BBox2i_xywh 0 0 region_size region_size"

definition partition_grid :: "int \<Rightarrow> BBox2i list" where
  "partition_grid region_size = bbox_tiles (full_region region_size) 4 4"

section \<open>IEEE-754 binary32 arithmetic\<close>

text \<open>
  \<^verbatim>\<open>float32\<close> is C++ \<^verbatim>\<open>float\<close>. It is modelled as IEEE-754 binary32 with the default
  rounding (to nearest, ties to even): a finite value is a sign (\<open>True\<close> for negative) and
  a magnitude, kept as an exact rational; \<open>round_f32\<close> rounds an exact magnitude to the
  nearest representable one (24 significant bits, least quantum \<open>2^-149\<close>, overflow to
  infinity from \<open>2^128\<close> on).
\<close>

datatype float32 = Finite bool rat | Infinity bool | NaN

definition floor_log2 :: "rat \<Rightarrow> int" where
  "floor_log2 r =
     (let d = bitlen (fst (quotient_of r)) - bitlen (snd (quotient_of r))
      in if 2 powi d \<le> r then d else d - 1)"

definition round_half_even :: "rat \<Rightarrow> int" where
  "round_half_even x =
     (let f = \<lfloor>x\<rfloor>; d = x - of_int f
      in if d < 1 / 2 then f else if 1 / 2 < d then f + 1 else if even f then f else f + 1)"

definition quantum :: "rat \<Rightarrow> rat" where
  "quantum r = 2 powi (max (floor_log2 r - 23) (- 149))"

definition round_f32 :: "bool \<Rightarrow> rat \<Rightarrow> float32" where
  "round_f32 s r =
     (if r = 0 then Finite s 0
      else let m = of_int (round_half_even (r / quantum r)) * quantum r
           in if 2 ^ 128 \<le> m then Infinity s else Finite s m)"

definition signed :: "bool \<Rightarrow> rat \<Rightarrow> rat" where
  "signed s m = (if s then - m else m)"

fun f32_add :: "float32 \<Rightarrow> float32 \<Rightarrow> float32" where
  "f32_add NaN _ = NaN"
| "f32_add _ NaN = NaN"
| "f32_add (Infinity s) (Infinity t) = (if s = t then Infinity s else NaN)"
| "f32_add (Infinity s) (Finite _ _) = Infinity s"
| "f32_add (Finite _ _) (Infinity t) = Infinity t"
| "f32_add (Finite s a) (Finite t b) =
     (let r = signed s a + signed t b
      in if r = 0 then Finite (s \<and> t) 0 else round_f32 (r < 0) \<bar>r\<bar>)"

fun f32_mul :: "float32 \<Rightarrow> float32 \<Rightarrow> float32" where
  "f32_mul NaN _ = NaN"
| "f32_mul _ NaN = NaN"
| "f32_mul (Infinity s) (Infinity t) = Infinity (s \<noteq> t)"
| "f32_mul (Infinity s) (Finite t b) = (if b = 0 then NaN else Infinity (s \<noteq> t))"
| "f32_mul (Finite s a) (Infinity t) = (if a = 0 then NaN else Infinity (s \<noteq> t))"
| "f32_mul (Finite s a) (Finite t b) = round_f32 (s \<noteq> t) (a * b)"

fun f32_div :: "float32 \<Rightarrow> float32 \<Rightarrow> float32" where
  "f32_div NaN _ = NaN"
| "f32_div _ NaN = NaN"
| "f32_div (Infinity s) (Infinity t) = NaN"
| "f32_div (Infinity s) (Finite t b) = Infinity (s \<noteq> t)"
| "f32_div (Finite s a) (Infinity t) = Finite (s \<noteq> t) 0"
| "f32_div (Finite s a) (Finite t b) =
     (if b = 0 then (if a = 0 then NaN else Infinity (s \<noteq> t))
      else round_f32 (s \<noteq> t) (a / b))"

text \<open>The comparison \<^verbatim>\<open>a < b\<close>; it is false as soon as one side is a NaN.\<close>

fun f32_less :: "float32 \<Rightarrow> float32 \<Rightarrow> bool" where
  "f32_less NaN _ = False"
| "f32_less _ NaN = False"
| "f32_less (Infinity s) (Infinity t) = (s \<and> \<not> t)"
| "f32_less (Infinity s) (Finite _ _) = s"
| "f32_less (Finite _ _) (Infinity t) = (\<not> t)"
| "f32_less (Finite s a) (Finite t b) = (signed s a < signed t b)"

text \<open>
  Conversion of a \<^verbatim>\<open>float\<close> to an integer type truncates towards zero; it is undefined
  behaviour in C++ when the truncated value does not fit the destination, which includes
  infinities and NaN. \<open>None\<close> stands for that undefined result.
\<close>

fun f32_trunc :: "float32 \<Rightarrow> int option" where
  "f32_trunc (Finite s m) = Some (if s then - \<lfloor>m\<rfloor> else \<lfloor>m\<rfloor>)"
| "f32_trunc _ = None"

definition f32_to_uint8 :: "float32 \<Rightarrow> 8 word option" where
  "f32_to_uint8 f =
     (case f32_trunc f of
        None \<Rightarrow> None
      | Some t \<Rightarrow> if 0 \<le> t \<and> t \<le> 255 then Some (word_of_int t) else None)"

definition f32_to_int16 :: "float32 \<Rightarrow> 16 word option" where
  "f32_to_int16 f =
     (case f32_trunc f of
        None \<Rightarrow> None
      | Some t \<Rightarrow> if - 32768 \<le> t \<and> t \<le> 32767 then Some (word_of_int t) else None)"

definition uint8_to_f32 :: "8 word \<Rightarrow> float32" where
  "uint8_to_f32 w = Finite False (of_nat (unat w))"

definition int16_to_f32 :: "16 word \<Rightarrow> float32" where
  "int16_to_f32 w = Finite (sint w < 0) (of_int \<bar>sint w\<bar>)"

text \<open>A zero of either sign.\<close>

fun is_zero :: "float32 \<Rightarrow> bool" where
  "is_zero (Finite s m) = (m = 0)"
| "is_zero _ = False"

section \<open>Channel types and image views\<close>

text \<open>
  Modelled from the spec: the image library (\<^verbatim>\<open>vw/Image.h\<close>: \<^verbatim>\<open>ImageView\<close>,
  \<^verbatim>\<open>select_channel\<close>, \<^verbatim>\<open>channel_cast\<close>, the operators on images, \<^verbatim>\<open>threshold\<close>,
  \<^verbatim>\<open>ChannelRange\<close>) is not among the sources. Section 4.4 of the specification gives
  the computation pixel by pixel: each alpha and each value is cast to the floating
  accumulator type, the sums start from zero, and the results are cast back to the native
  channel type. Accordingly \<^verbatim>\<open>select_channel\<close> picks one channel of every pixel,
  \<^verbatim>\<open>channel_cast<float32>\<close> converts every value, \<^verbatim>\<open>+=\<close>, \<^verbatim>\<open>*\<close> and \<^verbatim>\<open>/=\<close> act on the
  values at the same position, a new \<^verbatim>\<open>ImageView<float32>\<close> holds zeros, and assigning a
  \<^verbatim>\<open>float32\<close> image to a channel of the output converts every value as C++ converts a
  \<^verbatim>\<open>float\<close> to the channel type.

  The reducer is a template over the pixel type. Its channel type \<open>'c\<close> enters through
  these two conversions: \<open>channel_cast\<close> into the accumulator type and \<open>native_cast\<close>
  back.
\<close>

record 'c channel =
  channel_cast :: "'c \<Rightarrow> float32"
  native_cast :: "float32 \<Rightarrow> 'c option"

definition uint8_channel :: "8 word channel" where
  "uint8_channel = \<lparr>channel_cast = uint8_to_f32, native_cast = f32_to_uint8\<rparr>"

definition int16_channel :: "16 word channel" where
  "int16_channel = \<lparr>channel_cast = int16_to_f32, native_cast = f32_to_int16\<rparr>"

definition float32_channel :: "float32 channel" where
  "float32_channel = \<lparr>channel_cast = (\<lambda>f. f), native_cast = Some\<rparr>"

text \<open>
  \<^verbatim>\<open>ImageView<T>\<close>: \<open>cols\<close> by \<open>rows\<close> values in row-major order, the value at column
  \<open>x\<close> and row \<open>y\<close> at index \<open>y * cols + x\<close>. A pixel is the list of its channels, the
  alpha channel last.
\<close>

record 'a ImageView =
  cols :: nat
  rows :: nat
  data :: "'a list"

definition pixel_at :: "'a ImageView \<Rightarrow> nat \<Rightarrow> nat \<Rightarrow> 'a" where
  "pixel_at img x y = data img ! (y * cols img + x)"

definition wf_image :: "nat \<Rightarrow> 'c list ImageView \<Rightarrow> bool" where
  "wf_image num_channels img \<longleftrightarrow>
     length (data img) = cols img * rows img \<and> list_all (\<lambda>p. length p = num_channels) (data img)"

definition same_size :: "'a ImageView \<Rightarrow> 'b ImageView \<Rightarrow> bool" where
  "same_size a b \<longleftrightarrow> cols a = cols b \<and> rows a = rows b"

text \<open>\<^verbatim>\<open>ImageView<float32>(cols, rows)\<close>: a new image, its values set to zero.\<close>

definition zero_image :: "nat \<Rightarrow> nat \<Rightarrow> float32 ImageView" where
  "zero_image c r = \<lparr>cols = c, rows = r, data = replicate (c * r) (Finite False 0)\<rparr>"

definition select_channel :: "'c list ImageView \<Rightarrow> nat \<Rightarrow> 'c ImageView" where
  "select_channel img k = \<lparr>cols = cols img, rows = rows img, data = map (\<lambda>p. p ! k) (data img)\<rparr>"

definition image_channel_cast :: "'c channel \<Rightarrow> 'c ImageView \<Rightarrow> float32 ImageView" where
  "image_channel_cast ch img = \<lparr>cols = cols img, rows = rows img, data = map (channel_cast ch) (data img)\<rparr>"

text \<open>Per-pixel arithmetic of two images: \<^verbatim>\<open>a += b\<close>, \<^verbatim>\<open>a * b\<close>, \<^verbatim>\<open>a /= b\<close>.\<close>

definition per_pixel :: "('a \<Rightarrow> 'b \<Rightarrow> 'a) \<Rightarrow> 'a ImageView \<Rightarrow> 'b ImageView \<Rightarrow> 'a ImageView" where
  "per_pixel f a b = \<lparr>cols = cols a, rows = rows a, data = map2 f (data a) (data b)\<rparr>"

text \<open>
  Modelled from the spec: \<^verbatim>\<open>threshold\<close> is a function of the image library
  (\<^verbatim>\<open>vw/Image.h\<close>), which is not among the sources. The call is
  \<^verbatim>\<open>threshold(summed_weights, 0, min, max)\<close>; section 4.4 of the specification gives its
  result as \<open>clamp(summed_weight, channel_min, channel_max)\<close>, which does not use the
  second argument.
\<close>

definition clamp :: "float32 \<Rightarrow> float32 \<Rightarrow> float32 \<Rightarrow> float32" where
  "clamp v lo hi = (if f32_less hi v then hi else if f32_less v lo then lo else v)"

definition threshold :: "float32 ImageView \<Rightarrow> int \<Rightarrow> float32 \<Rightarrow> float32 \<Rightarrow> float32 ImageView" where
  "threshold img thresh lo hi = \<lparr>cols = cols img, rows = rows img, data = map (\<lambda>v. clamp v lo hi) (data img)\<rparr>"

section \<open>The Weighted-Average reducer\<close>

text \<open>\<^verbatim>\<open>TileHeader\<close>: the record of one stored tile version.\<close>

record TileHeader =
  col :: int
  row :: int
  level :: int
  transaction_id :: int

text \<open>
  \<^verbatim>\<open>for ( uint8 i = 0; i < n; i++ ) v[i] = f(i, v[i]);\<close> on a vector \<open>v\<close>. The pixel types
  of the program have two or four channels, so the 8-bit counter does not wrap.
\<close>

definition for_channels :: "nat \<Rightarrow> (nat \<Rightarrow> 'a \<Rightarrow> 'a) \<Rightarrow> 'a list \<Rightarrow> 'a list" where
  "for_channels n f v = foldl (\<lambda>v i. v[i := f i (v ! i)]) v [0 ..< n]"

text \<open>
  The body of the loop over the input images (lines 55-61). The state is the pair of
  \<^verbatim>\<open>summed_weights\<close> and \<^verbatim>\<open>sum_weighted_data\<close>.
\<close>

definition sum_image ::
  "nat \<Rightarrow> 'c channel \<Rightarrow> float32 ImageView \<times> float32 ImageView list \<Rightarrow> 'c list ImageView
     \<Rightarrow> float32 ImageView \<times> float32 ImageView list" where
  "sum_image num_channels ch acc img =
     (let alpha = image_channel_cast ch (select_channel img (num_channels - 1))
      in (per_pixel f32_add (fst acc) alpha,
          for_channels (num_channels - 1)
            (\<lambda>i d. per_pixel f32_add d
                      (per_pixel f32_mul alpha (image_channel_cast ch (select_channel img i))))
            (snd acc)))"

text \<open>
  \<^verbatim>\<open>WeightedAverage::operator()\<close> (lines 40-74). \<open>num_channels\<close> is
  \<^verbatim>\<open>CompoundNumChannels<PixelT>::value\<close>; \<open>cmin\<close> and \<open>cmax\<close> are
  \<^verbatim>\<open>ChannelRange<T>::min()\<close> and \<^verbatim>\<open>max()\<close> of the channel type, which the image library
  declares outside this file, and are taken as parameters. \<^verbatim>\<open>input.front()\<close> of an empty
  list is undefined: the result is \<open>None\<close>. The output has the size of the first input;
  pixel \<open>j\<close> of it holds, for every non-alpha channel \<open>i\<close>, the converted value \<open>j\<close> of
  \<^verbatim>\<open>sum_weighted_data[i]\<close> (lines 68-69), and last the converted value \<open>j\<close> of the
  thresholded weights (lines 71-73). A channel of the output is \<open>None\<close> where the
  conversion from \<^verbatim>\<open>float32\<close> is undefined.
\<close>

definition WeightedAverage ::
  "nat \<Rightarrow> 'c channel \<Rightarrow> 'c \<Rightarrow> 'c \<Rightarrow> 'c list ImageView list \<Rightarrow> TileHeader list
     \<Rightarrow> 'c option list ImageView option" where
  "WeightedAverage num_channels ch cmin cmax input input_header =
     (case input of
        [] \<Rightarrow> None
      | front # _ \<Rightarrow>
          let zero = zero_image (cols front) (rows front);
              totals = foldl (sum_image num_channels ch)
                       (zero, replicate (num_channels - 1) zero) input;
              summed_weights = fst totals;
              sum_weighted_data =
                for_channels (num_channels - 1) (\<lambda>i d. per_pixel f32_div d summed_weights) (snd totals);
              alpha = threshold summed_weights 0 (channel_cast ch cmin) (channel_cast ch cmax)
          in Some \<lparr>cols = cols front, rows = rows front,
                   data = map (\<lambda>j. map (\<lambda>i. native_cast ch (data (sum_weighted_data ! i) ! j))
                                      [0 ..< num_channels - 1]
                                  @ [native_cast ch (data alpha ! j)])
                              [0 ..< cols front * rows front]\<rparr>)"

text \<open>
  The sums of the specification at one pixel: \<open>summed_weight\<close> and \<open>weighted_sum k\<close>,
  accumulated in \<^verbatim>\<open>float32\<close> over the inputs in list order, starting from zero.
\<close>

definition alpha_at :: "nat \<Rightarrow> 'c channel \<Rightarrow> 'c list ImageView \<Rightarrow> nat \<Rightarrow> nat \<Rightarrow> float32" where
  "alpha_at num_channels ch img x y = channel_cast ch (pixel_at img x y ! (num_channels - 1))"

definition value_at :: "'c channel \<Rightarrow> 'c list ImageView \<Rightarrow> nat \<Rightarrow> nat \<Rightarrow> nat \<Rightarrow> float32" where
  "value_at ch img k x y = channel_cast ch (pixel_at img x y ! k)"

definition summed_weight :: "nat \<Rightarrow> 'c channel \<Rightarrow> 'c list ImageView list \<Rightarrow> nat \<Rightarrow> nat \<Rightarrow> float32" where
  "summed_weight num_channels ch input x y =
     foldl f32_add (Finite False 0) (map (\<lambda>img. alpha_at num_channels ch img x y) input)"

definition weighted_sum ::
  "nat \<Rightarrow> 'c channel \<Rightarrow> 'c list ImageView list \<Rightarrow> nat \<Rightarrow> nat \<Rightarrow> nat \<Rightarrow> float32" where
  "weighted_sum num_channels ch input k x y =
     foldl f32_add (Finite False 0)
       (map (\<lambda>img. f32_mul (alpha_at num_channels ch img x y) (value_at ch img k x y)) input)"

text \<open>The input the reducer is specified for: a nonempty list of images of one size.\<close>

definition wf_input :: "nat \<Rightarrow> 'c list ImageView list \<Rightarrow> bool" where
  "wf_input num_channels input \<longleftrightarrow>
     input \<noteq> [] \<and> list_all (wf_image num_channels) input \<and> list_all (same_size (hd input)) input"

text \<open>The clamp of an 8-bit value to the range from \<open>lo\<close> to \<open>hi\<close>.\<close>

definition clamp_uint8 :: "8 word \<Rightarrow> 8 word \<Rightarrow> 8 word \<Rightarrow> 8 word" where
  "clamp_uint8 v lo hi = (if hi < v then hi else if v < lo then lo else v)"

text \<open>
  The sums of the specification in exact integer arithmetic, for 8-bit channels:
  the sum of the \<open>alpha_i\<close> and the sum of the \<open>alpha_i * value_i,k\<close> at one pixel.
\<close>

definition alpha_total :: "nat \<Rightarrow> 8 word list ImageView list \<Rightarrow> nat \<Rightarrow> nat \<Rightarrow> int" where
  "alpha_total num_channels input x y =
     sum_list (map (\<lambda>img. uint (pixel_at img x y ! (num_channels - 1))) input)"

definition weighted_total :: "nat \<Rightarrow> 8 word list ImageView list \<Rightarrow> nat \<Rightarrow> nat \<Rightarrow> nat \<Rightarrow> int" where
  "weighted_total num_channels input k x y =
     sum_list (map (\<lambda>img. uint (pixel_at img x y ! (num_channels - 1)) * uint (pixel_at img x y ! k)) input)"

text \<open>A buffer of one pixel, as in the examples of the specification.\<close>

definition single_pixel :: "'c list \<Rightarrow> 'c list ImageView" where
  "single_pixel p = \<lparr>cols = 1, rows = 1, data = [p]\<rparr>"

section \<open>The tile store and the aggregation loop\<close>

text \<open>
  The exceptions the program distinguishes; \<open>OtherErr\<close> is any other exception of the
  store (an I/O failure, for one).
\<close>

datatype exn = ArgumentErr | InputErr | TileNotFoundErr | OtherErr

text \<open>
  The enumerations \<^verbatim>\<open>PixelFormatEnum\<close> and \<^verbatim>\<open>ChannelTypeEnum\<close> are declared by the image
  library; the program names two pixel formats and three channel types, every other
  enumerator falls into the \<^verbatim>\<open>default\<close> branches.
\<close>

datatype PixelFormatEnum = VW_PIXEL_GRAYA | VW_PIXEL_RGBA | VW_PIXEL_other nat

datatype ChannelTypeEnum = VW_CHANNEL_UINT8 | VW_CHANNEL_INT16 | VW_CHANNEL_FLOAT32 | VW_CHANNEL_other nat

text \<open>The pixel types \<^verbatim>\<open>apply_reduce\<close> is instantiated with.\<close>

datatype PixelT = PixelGrayA_uint8 | PixelGrayA_int16 | PixelGrayA_float32 | PixelRGBA_uint8

text \<open>\<^verbatim>\<open>Options\<close>; the field \<^verbatim>\<open>opt.level\<close> is \<open>opt_level\<close>, and so on.\<close>

record Options =
  opt_url :: string
  opt_level :: int
  opt_start_trans_id :: int
  opt_end_trans_id :: int
  opt_function :: string
  opt_transaction_id :: int
  opt_job_id :: int
  opt_num_jobs :: int

text \<open>
  \<^verbatim>\<open>PlateFile\<close> is an external collaborator. It is modelled by its methods over a store
  state \<open>'s\<close>: the queries read the state, the three write calls change it, and each call
  either returns or throws. \<open>'img\<close> is the type of a tile's pixel data.
\<close>

record ('s, 'img) PlateFile =
  num_levels :: "'s \<Rightarrow> int"
  pixel_format :: "'s \<Rightarrow> PixelFormatEnum"
  channel_type :: "'s \<Rightarrow> ChannelTypeEnum"
  search_by_location :: "'s \<Rightarrow> int \<Rightarrow> int \<Rightarrow> int \<Rightarrow> int \<Rightarrow> int \<Rightarrow> bool \<Rightarrow> exn + TileHeader list"
  read :: "'s \<Rightarrow> PixelT \<Rightarrow> int \<Rightarrow> int \<Rightarrow> int \<Rightarrow> int \<Rightarrow> bool \<Rightarrow> exn + 'img"
  write_request :: "'s \<Rightarrow> exn + 's"
  write_update :: "'s \<Rightarrow> 'img \<Rightarrow> int \<Rightarrow> int \<Rightarrow> int \<Rightarrow> int \<Rightarrow> exn + 's"
  write_complete :: "'s \<Rightarrow> exn + 's"

text \<open>The calls made on the store, in order, are recorded next to the store state.\<close>

datatype 'img call =
    SearchByLocation int int int int int bool
  | Read int int int int bool
  | WriteRequest
  | WriteUpdate 'img int int int int
  | WriteComplete

record ('s, 'img) run =
  store :: 's
  calls :: "'img call list"

definition logged :: "'img call \<Rightarrow> ('s, 'img) run \<Rightarrow> ('s, 'img) run" where
  "logged c st = st\<lparr>calls := calls st @ [c]\<rparr>"

text \<open>A step either throws, leaving the run as it was at the throw, or returns the new run.\<close>

type_synonym ('s, 'img) outcome = "exn \<times> ('s, 'img) run + ('s, 'img) run"

definition is_write :: "'img call \<Rightarrow> bool" where
  "is_write c = (case c of WriteRequest \<Rightarrow> True | WriteUpdate _ _ _ _ _ \<Rightarrow> True
                 | WriteComplete \<Rightarrow> True | _ \<Rightarrow> False)"

text \<open>
  Lines 152-159: the query, with \<^verbatim>\<open>TileNotFoundErr\<close> caught and \<^verbatim>\<open>tile_records\<close> left
  empty; any other exception propagates.
\<close>

definition poll_tiles ::
  "('s, 'img) PlateFile \<Rightarrow> Options \<Rightarrow> 's \<Rightarrow> int \<times> int \<Rightarrow> exn + TileHeader list" where
  "poll_tiles P opt s location =
     (case search_by_location P s (fst location) (snd location) (opt_level opt)
             (opt_start_trans_id opt) (opt_end_trans_id opt) True of
        Inl e \<Rightarrow> (if e = TileNotFoundErr then Inr [] else Inl e)
      | Inr tile_records \<Rightarrow> Inr tile_records)"

text \<open>Lines 166-173: one \<^verbatim>\<open>read\<close> for each tile record, in order.\<close>

fun load_tiles ::
  "PixelT \<Rightarrow> ('s, 'img) PlateFile \<Rightarrow> Options \<Rightarrow> int \<times> int \<Rightarrow> TileHeader list
     \<Rightarrow> 'img list \<Rightarrow> ('s, 'img) run \<Rightarrow> exn \<times> ('s, 'img) run + 'img list \<times> ('s, 'img) run" where
  "load_tiles T P opt location [] tiles st = Inr (tiles, st)"
| "load_tiles T P opt location (tile # others) tiles st =
     (let st1 = logged (Read (fst location) (snd location) (opt_level opt) (transaction_id tile) True) st
      in case read P (store st) T (fst location) (snd location) (opt_level opt)
                (transaction_id tile) True of
           Inl e \<Rightarrow> Inl (e, st1)
         | Inr new_tile \<Rightarrow> load_tiles T P opt location others (tiles @ [new_tile]) st1)"

text \<open>Lines 179-183: the three write calls.\<close>

definition write_result ::
  "('s, 'img) PlateFile \<Rightarrow> Options \<Rightarrow> int \<times> int \<Rightarrow> 'img \<Rightarrow> ('s, 'img) run \<Rightarrow> ('s, 'img) outcome" where
  "write_result P opt location result st =
     (let st1 = logged WriteRequest st
      in case write_request P (store st) of
           Inl e \<Rightarrow> Inl (e, st1)
         | Inr s1 \<Rightarrow>
             let st2 = logged (WriteUpdate result (fst location) (snd location)
                                 (opt_level opt) (opt_transaction_id opt)) (st1\<lparr>store := s1\<rparr>)
             in case write_update P s1 result (fst location) (snd location)
                       (opt_level opt) (opt_transaction_id opt) of
                  Inl e \<Rightarrow> Inl (e, st2)
                | Inr s2 \<Rightarrow>
                    let st3 = logged WriteComplete (st2\<lparr>store := s2\<rparr>)
                    in case write_complete P s2 of
                         Inl e \<Rightarrow> Inl (e, st3)
                       | Inr s3 \<Rightarrow> Inr (st3\<lparr>store := s3\<rparr>))"

text \<open>The body of the two inner loops of \<^verbatim>\<open>apply_reduce\<close> (lines 148-183), for one cell.\<close>

definition process_cell ::
  "PixelT \<Rightarrow> ('s, 'img) PlateFile \<Rightarrow> Options \<Rightarrow> ('img list \<Rightarrow> TileHeader list \<Rightarrow> 'img)
     \<Rightarrow> ('s, 'img) run \<Rightarrow> int \<times> int \<Rightarrow> ('s, 'img) outcome" where
  "process_cell T P opt reduce st location =
     (let st1 = logged (SearchByLocation (fst location) (snd location) (opt_level opt)
                          (opt_start_trans_id opt) (opt_end_trans_id opt) True) st
      in case poll_tiles P opt (store st) location of
           Inl e \<Rightarrow> Inl (e, st1)
         | Inr tile_records \<Rightarrow>
             if length tile_records = 0 then Inr st1
             else (case load_tiles T P opt location tile_records [] st1 of
                     Inl err \<Rightarrow> Inl err
                   | Inr (tiles, st2) \<Rightarrow>
                       write_result P opt location (reduce tiles tile_records) st2))"

text \<open>
  The cells of one work unit in the order of the loops over \<^verbatim>\<open>ix\<close> and \<^verbatim>\<open>iy\<close>
  (lines 146-149), and the cells of a list of work units.
\<close>

definition cells_of :: "BBox2i \<Rightarrow> (int \<times> int) list" where
  "cells_of workunit =
     concat (map (\<lambda>ix. map (\<lambda>iy. (ix + fst (bmin workunit), iy + snd (bmin workunit)))
                            [0 ..< nat (height workunit)])
                 [0 ..< nat (width workunit)])"

fun process_cells ::
  "PixelT \<Rightarrow> ('s, 'img) PlateFile \<Rightarrow> Options \<Rightarrow> ('img list \<Rightarrow> TileHeader list \<Rightarrow> 'img)
     \<Rightarrow> ('s, 'img) run \<Rightarrow> (int \<times> int) list \<Rightarrow> ('s, 'img) outcome" where
  "process_cells T P opt reduce st [] = Inr st"
| "process_cells T P opt reduce st (location # others) =
     (case process_cell T P opt reduce st location of
        Inl err \<Rightarrow> Inl err
      | Inr st1 \<Rightarrow> process_cells T P opt reduce st1 others)"

definition apply_reduce ::
  "PixelT \<Rightarrow> ('s, 'img) PlateFile \<Rightarrow> BBox2i list \<Rightarrow> Options
     \<Rightarrow> ('img list \<Rightarrow> TileHeader list \<Rightarrow> 'img) \<Rightarrow> ('s, 'img) run \<Rightarrow> ('s, 'img) outcome" where
  "apply_reduce T P workunits opt reduce st =
     process_cells T P opt reduce st (concat (map cells_of workunits))"

text \<open>
  \<^verbatim>\<open>do_run\<close> (lines 192-251), from the opened plate file on. \<^verbatim>\<open>pow(2.0,opt.level)\<close> is
  \<open>2 ^ level\<close>, the level being non-negative past the first check (a level from 31 on
  would not fit the \<^verbatim>\<open>int\<close>; the model keeps the exact power). The template argument
  \<^verbatim>\<open>PixelT\<close> of \<^verbatim>\<open>apply_reduce\<close> is its first argument here.
\<close>

definition do_run ::
  "('s, 'img) PlateFile \<Rightarrow> Options \<Rightarrow> ('img list \<Rightarrow> TileHeader list \<Rightarrow> 'img)
     \<Rightarrow> ('s, 'img) run \<Rightarrow> ('s, 'img) outcome" where
  "do_run P opt reduce st =
     (if opt_level opt < 0 \<or> num_levels P (store st) \<le> opt_level opt then Inl (ArgumentErr, st)
      else
        let region_size = 2 ^ nat (opt_level opt);
            workunits = bbox_tiles (full_region region_size) 4 4;
            mworkunits = assign workunits (opt_job_id opt) (opt_num_jobs opt)
        in case pixel_format P (store st) of
             VW_PIXEL_GRAYA \<Rightarrow>
               (case channel_type P (store st) of
                  VW_CHANNEL_UINT8 \<Rightarrow> apply_reduce PixelGrayA_uint8 P mworkunits opt reduce st
                | VW_CHANNEL_INT16 \<Rightarrow> apply_reduce PixelGrayA_int16 P mworkunits opt reduce st
                | VW_CHANNEL_FLOAT32 \<Rightarrow> apply_reduce PixelGrayA_float32 P mworkunits opt reduce st
                | VW_CHANNEL_other _ \<Rightarrow> Inl (InputErr, st))
           | VW_PIXEL_RGBA \<Rightarrow>
               (case channel_type P (store st) of
                  VW_CHANNEL_UINT8 \<Rightarrow> apply_reduce PixelRGBA_uint8 P mworkunits opt reduce st
                | _ \<Rightarrow> Inl (InputErr, st))
           | VW_PIXEL_other _ \<Rightarrow> Inl (InputErr, st))"

text \<open>The table of supported combinations, as the specification lists it.\<close>

definition supported :: "PixelFormatEnum \<Rightarrow> ChannelTypeEnum \<Rightarrow> bool" where
  "supported fmt ct \<longleftrightarrow>
     (fmt, ct) \<in> {(VW_PIXEL_GRAYA, VW_CHANNEL_UINT8), (VW_PIXEL_GRAYA, VW_CHANNEL_INT16),
                 (VW_PIXEL_GRAYA, VW_CHANNEL_FLOAT32), (VW_PIXEL_RGBA, VW_CHANNEL_UINT8)}"

text \<open>
  The cells \<^verbatim>\<open>apply_reduce\<close> visits for the job \<open>job_id\<close> of \<open>num_jobs\<close> on a grid of
  \<open>region_size\<close> by \<open>region_size\<close> cells: those of the work units \<^verbatim>\<open>do_run\<close> hands it.
\<close>

definition job_cells :: "int \<Rightarrow> int \<Rightarrow> int \<Rightarrow> (int \<times> int) list" where
  "job_cells region_size job_id num_jobs =
     concat (map cells_of (assign (partition_grid region_size) job_id num_jobs))"

text \<open>
  For the examples: a plate file of \<open>n\<close> levels that holds no tile, so that every query
  throws \<^verbatim>\<open>TileNotFoundErr\<close>, and the options of a run at level \<open>l\<close> with the defaults
  of the command line.
\<close>

definition empty_plate :: "PixelFormatEnum \<Rightarrow> ChannelTypeEnum \<Rightarrow> int \<Rightarrow> (unit, nat) PlateFile" where
  "empty_plate fmt ct n =
     \<lparr>num_levels = (\<lambda>_. n), pixel_format = (\<lambda>_. fmt), channel_type = (\<lambda>_. ct),
      search_by_location = (\<lambda>_ _ _ _ _ _ _. Inl TileNotFoundErr),
      read = (\<lambda>_ _ _ _ _ _ _. Inl TileNotFoundErr),
      write_request = Inr, write_update = (\<lambda>s _ _ _ _ _. Inr s), write_complete = Inr\<rparr>"

definition options_at_level :: "int \<Rightarrow> Options" where
  "options_at_level l =
     \<lparr>opt_url = ''plate'', opt_level = l, opt_start_trans_id = 0, opt_end_trans_id = 0,
      opt_function = ''weightedavg'', opt_transaction_id = 2000, opt_job_id = 0, opt_num_jobs = 1\<rparr>"

definition new_run :: "(unit, nat) run" where
  "new_run = \<lparr>store = (), calls = []\<rparr>"

section \<open>Properties of the assignment\<close>

lemma assign_step_count:
  assumes "1 \<le> num_jobs" "0 \<le> count st" "count st \<le> num_jobs"
  shows "1 \<le> count (assign_step job_id num_jobs st c)"
    and "count (assign_step job_id num_jobs st c) \<le> num_jobs"
    and "count (assign_step job_id num_jobs st c) mod num_jobs = (count st + 1) mod num_jobs"
  using assms by (auto simp: assign_step_def Let_def)

lemma assign_loop_snoc:
  "assign_loop job_id num_jobs st (xs @ [x]) =
     assign_step job_id num_jobs (assign_loop job_id num_jobs st xs) x"
  by (simp add: assign_loop_def)

lemma assign_loop_count:
  assumes "1 \<le> num_jobs" "0 \<le> count st" "count st \<le> num_jobs"
  shows "0 \<le> count (assign_loop job_id num_jobs st xs)
       \<and> count (assign_loop job_id num_jobs st xs) \<le> num_jobs
       \<and> count (assign_loop job_id num_jobs st xs) mod num_jobs
           = (count st + int (length xs)) mod num_jobs"
proof (induction xs rule: rev_induct)
  case Nil
  show ?case using assms by (simp add: assign_loop_def)
next
  case (snoc x xs)
  let ?s = "assign_loop job_id num_jobs st xs"
  from snoc have b: "0 \<le> count ?s" "count ?s \<le> num_jobs"
    and m: "count ?s mod num_jobs = (count st + int (length xs)) mod num_jobs"
    by simp_all
  have "count (assign_step job_id num_jobs ?s x) mod num_jobs = (count ?s + 1) mod num_jobs"
    using assign_step_count(3)[OF assms(1) b] .
  also have "\<dots> = (count st + int (length xs) + 1) mod num_jobs"
    using m by (metis mod_add_left_eq)
  finally have "count (assign_step job_id num_jobs ?s x) mod num_jobs
      = (count st + int (length (xs @ [x]))) mod num_jobs"
    by (simp add: ac_simps)
  moreover have "0 \<le> count (assign_step job_id num_jobs ?s x)"
    using assign_step_count(1)[OF assms(1) b, of job_id x] by linarith
  moreover have "count (assign_step job_id num_jobs ?s x) \<le> num_jobs"
    using assign_step_count(2)[OF assms(1) b] .
  ultimately show ?case by (simp add: assign_loop_snoc)
qed

lemma assign_step_mworkunits:
  assumes "1 \<le> num_jobs" "0 \<le> count st" "count st \<le> num_jobs"
  shows "mworkunits (assign_step job_id num_jobs st c) =
         (if count st mod num_jobs = job_id then mworkunits st @ [c] else mworkunits st)"
  using assms by (auto simp: assign_step_def Let_def)

lemma assign_loop_mworkunits:
  assumes "1 \<le> num_jobs" "0 \<le> count st" "count st \<le> num_jobs"
  shows "mworkunits (assign_loop job_id num_jobs st xs) =
         mworkunits st @ map (\<lambda>i. xs ! i)
            (filter (\<lambda>i. (count st + int i) mod num_jobs = job_id) [0 ..< length xs])"
proof (induction xs rule: rev_induct)
  case Nil
  show ?case by (simp add: assign_loop_def)
next
  case (snoc x xs)
  let ?s = "assign_loop job_id num_jobs st xs"
  let ?P = "\<lambda>i. (count st + int i) mod num_jobs = job_id"
  have c: "0 \<le> count ?s" "count ?s \<le> num_jobs"
    "count ?s mod num_jobs = (count st + int (length xs)) mod num_jobs"
    using assign_loop_count[OF assms, of job_id xs] by simp_all
  have old: "map (\<lambda>i. (xs @ [x]) ! i) (filter ?P [0 ..< length xs])
           = map (\<lambda>i. xs ! i) (filter ?P [0 ..< length xs])"
    by (rule map_cong) (auto simp: nth_append)
  have "mworkunits (assign_loop job_id num_jobs st (xs @ [x])) =
        (if ?P (length xs) then mworkunits ?s @ [x] else mworkunits ?s)"
    by (simp add: assign_loop_snoc assign_step_mworkunits[OF assms(1) c(1,2)] c(3))
  then show ?case
    using snoc old by simp
qed

lemma assign_positions:
  assumes "1 \<le> num_jobs"
  shows "assign workunits job_id num_jobs =
         map (\<lambda>i. workunits ! i) (filter (\<lambda>i. int i mod num_jobs = job_id) [0 ..< length workunits])"
  using assign_loop_mworkunits[OF assms, of "\<lparr>count = 0, mworkunits = []\<rparr>" job_id workunits] assms
  by (simp add: assign_def)

lemma set_assign:
  assumes "1 \<le> num_jobs"
  shows "set (assign workunits job_id num_jobs) =
         {workunits ! i | i. i < length workunits \<and> int i mod num_jobs = job_id}"
  by (auto simp: assign_positions[OF assms])

lemma assign_union:
  assumes "1 \<le> num_jobs"
  shows "(\<Union>job_id \<in> {0 ..< num_jobs}. set (assign workunits job_id num_jobs)) = set workunits"
proof
  show "(\<Union>job_id \<in> {0 ..< num_jobs}. set (assign workunits job_id num_jobs)) \<subseteq> set workunits"
    by (auto simp: set_assign[OF assms])
next
  show "set workunits \<subseteq> (\<Union>job_id \<in> {0 ..< num_jobs}. set (assign workunits job_id num_jobs))"
  proof
    fix c assume "c \<in> set workunits"
    then obtain i where i: "i < length workunits" "workunits ! i = c"
      by (auto simp: in_set_conv_nth)
    have "int i mod num_jobs \<in> {0 ..< num_jobs}"
      using assms by simp
    moreover have "c \<in> set (assign workunits (int i mod num_jobs) num_jobs)"
      using i by (auto simp: set_assign[OF assms])
    ultimately show "c \<in> (\<Union>job_id \<in> {0 ..< num_jobs}. set (assign workunits job_id num_jobs))"
      by blast
  qed
qed

lemma assign_disjoint:
  assumes "1 \<le> num_jobs" "distinct workunits" "j1 \<noteq> j2"
  shows "set (assign workunits j1 num_jobs) \<inter> set (assign workunits j2 num_jobs) = {}"
proof -
  have False if "c \<in> set (assign workunits j1 num_jobs)" "c \<in> set (assign workunits j2 num_jobs)" for c
  proof -
    from that(1) obtain i where i: "i < length workunits" "workunits ! i = c" "int i mod num_jobs = j1"
      by (auto simp: set_assign[OF assms(1)])
    from that(2) obtain k where k: "k < length workunits" "workunits ! k = c" "int k mod num_jobs = j2"
      by (auto simp: set_assign[OF assms(1)])
    have "i = k"
      using nth_eq_iff_index_eq[OF assms(2) i(1) k(1)] i(2) k(2) by simp
    with i(3) k(3) assms(3) show False by simp
  qed
  then show ?thesis by blast
qed

lemma distinct_block_starts:
  assumes "0 < step"
  shows "distinct (block_starts lo hi step)"
  unfolding block_starts_def using assms
  by (auto simp: distinct_map inj_on_def)

lemma bbox_tiles_corners:
  "map (\<lambda>b. (snd (bmin b), fst (bmin b))) (bbox_tiles region w h) =
     List.product (block_starts (snd (bmin region)) (snd (bmax region)) h)
                  (block_starts (fst (bmin region)) (fst (bmax region)) w)"
  by (simp add: bbox_tiles_def List.product_concat_map map_concat comp_def BBox2i_xywh_def)

lemma distinct_bbox_tiles:
  assumes "0 < w" "0 < h"
  shows "distinct (bbox_tiles region w h)"
proof -
  have "distinct (map (\<lambda>b. (snd (bmin b), fst (bmin b))) (bbox_tiles region w h))"
    unfolding bbox_tiles_corners
    by (intro distinct_product distinct_block_starts assms)
  then show ?thesis by (rule distinct_map[THEN iffD1, THEN conjunct1])
qed

lemma distinct_partition_grid: "distinct (partition_grid region_size)"
  by (simp add: partition_grid_def distinct_bbox_tiles)

text \<open>
  C4. With \<open>num_jobs \<ge> 1\<close> and \<open>0 \<le> job_id < num_jobs\<close>, the work units assigned to
  \<open>job_id\<close> are exactly those at the positions \<open>i\<close> with \<open>i mod num_jobs = job_id\<close>, in
  the order of the sequence.
\<close>

theorem assign_round_robin:
  assumes "1 \<le> num_jobs" and "0 \<le> job_id" and "job_id < num_jobs"
  shows "assign workunits job_id num_jobs =
         map (\<lambda>i. workunits ! i) (filter (\<lambda>i. int i mod num_jobs = job_id) [0 ..< length workunits])"
  using assms(1) by (rule assign_positions)

theorem assign_round_robin_witness:
  "(1::int) \<le> 3 \<and> (0::int) \<le> 1 \<and> (1::int) < 3
   \<and> assign [10, 11, 12, 13, 14, 15, 16 :: nat] 1 3 = [11, 14]"
proof -
  have "assign [10, 11, 12, 13, 14, 15, 16 :: nat] 1 3 =
        map (\<lambda>i. [10, 11, 12, 13, 14, 15, 16 :: nat] ! i)
            (filter (\<lambda>i. int i mod 3 = 1) [0 ..< length [10, 11, 12, 13, 14, 15, 16 :: nat]])"
    by (rule assign_round_robin) simp_all
  also have "\<dots> = [11, 14]"
    by code_simp
  finally show ?thesis by simp
qed

text \<open>
  C9. With \<open>num_jobs \<ge> 1\<close>, a \<open>job_id\<close> below \<open>0\<close> or from \<open>num_jobs\<close> on is assigned no
  work unit.
\<close>

theorem assign_out_of_range:
  assumes "1 \<le> num_jobs" and "job_id < 0 \<or> num_jobs \<le> job_id"
  shows "assign workunits job_id num_jobs = []"
proof -
  have "int i mod num_jobs \<noteq> job_id" for i
  proof -
    have "0 \<le> int i mod num_jobs" "int i mod num_jobs < num_jobs"
      using assms(1) by simp_all
    with assms(2) show ?thesis by linarith
  qed
  then show ?thesis by (simp add: assign_positions[OF assms(1)])
qed

theorem assign_out_of_range_witness:
  "(1::int) \<le> 3 \<and> ((3::int) < 0 \<or> (3::int) \<le> 3) \<and> assign (partition_grid 8) 3 3 = []
   \<and> assign (partition_grid 8) (- 1) 3 = []"
proof -
  have "assign (partition_grid 8) 3 3 = []"
    by (rule assign_out_of_range) simp_all
  moreover have "assign (partition_grid 8) (- 1) 3 = []"
    by (rule assign_out_of_range) simp_all
  ultimately show ?thesis by simp
qed

subsection \<open>The partition of the grid\<close>

lemma set_cells_of:
  "set (cells_of b) = {fst (bmin b) ..< fst (bmax b)} \<times> {snd (bmin b) ..< snd (bmax b)}"
proof (rule set_eqI)
  fix c :: "int \<times> int"
  obtain cx cy where c: "c = (cx, cy)" by (cases c)
  have "c \<in> set (cells_of b) \<longleftrightarrow>
        (\<exists>ix < nat (width b). \<exists>iy < nat (height b). cx = int ix + fst (bmin b) \<and> cy = int iy + snd (bmin b))"
    by (force simp: cells_of_def c)
  also have "\<dots> \<longleftrightarrow> fst (bmin b) \<le> cx \<and> cx < fst (bmax b) \<and> snd (bmin b) \<le> cy \<and> cy < snd (bmax b)"
  proof
    assume "\<exists>ix < nat (width b). \<exists>iy < nat (height b). cx = int ix + fst (bmin b) \<and> cy = int iy + snd (bmin b)"
    then show "fst (bmin b) \<le> cx \<and> cx < fst (bmax b) \<and> snd (bmin b) \<le> cy \<and> cy < snd (bmax b)"
      by (auto simp: width_def height_def)
  next
    assume a: "fst (bmin b) \<le> cx \<and> cx < fst (bmax b) \<and> snd (bmin b) \<le> cy \<and> cy < snd (bmax b)"
    have "nat (cx - fst (bmin b)) < nat (width b)" "cx = int (nat (cx - fst (bmin b))) + fst (bmin b)"
      "nat (cy - snd (bmin b)) < nat (height b)" "cy = int (nat (cy - snd (bmin b))) + snd (bmin b)"
      using a by (simp_all add: width_def height_def)
    then show "\<exists>ix < nat (width b). \<exists>iy < nat (height b). cx = int ix + fst (bmin b) \<and> cy = int iy + snd (bmin b)"
      by blast
  qed
  finally show "c \<in> set (cells_of b) \<longleftrightarrow>
      c \<in> {fst (bmin b) ..< fst (bmax b)} \<times> {snd (bmin b) ..< snd (bmax b)}"
    by (simp add: c)
qed

text \<open>The blocks along one axis: their starts, and the cell each coordinate falls in.\<close>

lemma block_starts_iff:
  assumes "0 < step"
  shows "x \<in> set (block_starts lo hi step) \<longleftrightarrow> lo \<le> x \<and> x < hi \<and> (x - lo) mod step = 0"
proof
  assume "x \<in> set (block_starts lo hi step)"
  then obtain i where i: "i < nat ((hi - lo + step - 1) div step)" "x = lo + step * int i"
    by (auto simp: block_starts_def)
  have "int i < (hi - lo + step - 1) div step" using i(1) by simp
  then have "int i + 1 \<le> (hi - lo + step - 1) div step" by simp
  then have "(int i + 1) * step \<le> ((hi - lo + step - 1) div step) * step"
    using assms by (intro mult_right_mono) simp_all
  also have "\<dots> \<le> hi - lo + step - 1"
    using div_mult_mod_eq[of "hi - lo + step - 1" step] pos_mod_sign[OF assms, of "hi - lo + step - 1"]
    by linarith
  finally have "(int i + 1) * step \<le> hi - lo + step - 1" .
  then have "step * int i < hi - lo" by (simp add: algebra_simps)
  then show "lo \<le> x \<and> x < hi \<and> (x - lo) mod step = 0"
    using i(2) assms by simp
next
  assume a: "lo \<le> x \<and> x < hi \<and> (x - lo) mod step = 0"
  define i where "i = nat ((x - lo) div step)"
  have d: "0 \<le> (x - lo) div step" using a assms by (simp add: pos_imp_zdiv_nonneg_iff)
  have x: "x = lo + step * int i"
    using a d by (simp add: i_def) (metis add.commute diff_add_cancel mult.commute mod_0_imp_dvd dvd_div_mult_self)
  have "x - lo + step \<le> hi - lo + step - 1" using a by simp
  then have "(x - lo + step) div step \<le> (hi - lo + step - 1) div step"
    by (rule zdiv_mono1) (rule assms)
  moreover have "(x - lo + step) div step = (x - lo) div step + 1"
    using assms by simp
  ultimately have "i < nat ((hi - lo + step - 1) div step)"
    using d by (simp add: i_def)
  then show "x \<in> set (block_starts lo hi step)"
    using x by (auto simp: block_starts_def)
qed


lemma block_unique:
  assumes "0 < step" "x \<in> set (block_starts lo hi step)" "x \<le> c" "c < x + step"
  shows "x = c - (c - lo) mod step"
proof -
  have m: "(x - lo) mod step = 0"
    using assms(1,2) by (simp add: block_starts_iff)
  have "(c - lo) mod step = ((x - lo) + (c - x)) mod step" by simp
  also have "\<dots> = ((x - lo) mod step + (c - x)) mod step"
    by (simp only: mod_add_left_eq)
  also have "\<dots> = (c - x) mod step" by (simp add: m)
  also have "\<dots> = c - x"
    using assms(3,4) by (simp add: mod_pos_pos_trivial)
  finally show ?thesis by simp
qed

lemma block_exists:
  assumes "0 < step" "lo \<le> c" "c < hi"
  shows "c - (c - lo) mod step \<in> set (block_starts lo hi step)"
    and "c - (c - lo) mod step \<le> c"
    and "c < c - (c - lo) mod step + min step (hi - (c - (c - lo) mod step))"
proof -
  define r where "r = (c - lo) mod step"
  have r: "0 \<le> r" "r < step" "r \<le> c - lo"
    using assms(1,2) by (simp_all add: r_def zmod_le_nonneg_dividend)
  have "(c - r - lo) mod step = ((c - lo) - (c - lo) mod step) mod step"
    by (simp add: r_def algebra_simps)
  also have "\<dots> = 0" by (simp add: minus_mod_eq_mult_div)
  finally have "(c - r - lo) mod step = 0" .
  then show "c - (c - lo) mod step \<in> set (block_starts lo hi step)"
    using r assms by (simp add: block_starts_iff[OF assms(1)] r_def[symmetric])
  show "c - (c - lo) mod step \<le> c"
    using r(1) by (simp add: r_def)
  show "c < c - (c - lo) mod step + min step (hi - (c - (c - lo) mod step))"
    using r assms(3) by (simp add: r_def[symmetric] min_def)
qed

lemma in_bbox_tiles:
  "b \<in> set (bbox_tiles region w h) \<longleftrightarrow>
     (\<exists>x \<in> set (block_starts (fst (bmin region)) (fst (bmax region)) w).
      \<exists>y \<in> set (block_starts (snd (bmin region)) (snd (bmax region)) h).
        b = BBox2i_xywh x y (min w (fst (bmax region) - x)) (min h (snd (bmax region) - y)))"
  by (auto simp: bbox_tiles_def)

lemma cells_of_xywh:
  "set (cells_of (BBox2i_xywh x y bw bh)) = {x ..< x + bw} \<times> {y ..< y + bh}"
  by (simp add: set_cells_of BBox2i_xywh_def)

text \<open>The work units of \<^verbatim>\<open>bbox_tiles\<close> cover the region, and no two of them share a cell.\<close>

lemma bbox_tiles_cover:
  assumes "0 < w" "0 < h"
  shows "(\<Union>b \<in> set (bbox_tiles region w h). set (cells_of b))
           = {fst (bmin region) ..< fst (bmax region)} \<times> {snd (bmin region) ..< snd (bmax region)}"
proof (rule set_eqI)
  fix c :: "int \<times> int"
  obtain cx cy where c: "c = (cx, cy)" by (cases c)
  let ?xs = "block_starts (fst (bmin region)) (fst (bmax region)) w"
  let ?ys = "block_starts (snd (bmin region)) (snd (bmax region)) h"
  show "c \<in> (\<Union>b \<in> set (bbox_tiles region w h). set (cells_of b)) \<longleftrightarrow>
        c \<in> {fst (bmin region) ..< fst (bmax region)} \<times> {snd (bmin region) ..< snd (bmax region)}"
  proof
    assume "c \<in> (\<Union>b \<in> set (bbox_tiles region w h). set (cells_of b))"
    then obtain x y where x: "x \<in> set ?xs" and y: "y \<in> set ?ys"
      and cx: "x \<le> cx" "cx < x + min w (fst (bmax region) - x)"
      and cy: "y \<le> cy" "cy < y + min h (snd (bmax region) - y)"
      by (auto simp: in_bbox_tiles cells_of_xywh c)
    have "fst (bmin region) \<le> x" "snd (bmin region) \<le> y"
      using x y assms by (simp_all add: block_starts_iff)
    then show "c \<in> {fst (bmin region) ..< fst (bmax region)} \<times> {snd (bmin region) ..< snd (bmax region)}"
      using cx cy by (auto simp: c min_def split: if_splits)
  next
    assume "c \<in> {fst (bmin region) ..< fst (bmax region)} \<times> {snd (bmin region) ..< snd (bmax region)}"
    then have bx: "fst (bmin region) \<le> cx" "cx < fst (bmax region)"
      and "by": "snd (bmin region) \<le> cy" "cy < snd (bmax region)"
      by (simp_all add: c)
    define x where "x = cx - (cx - fst (bmin region)) mod w"
    define y where "y = cy - (cy - snd (bmin region)) mod h"
    note X = block_exists[OF assms(1) bx, folded x_def] and Y = block_exists[OF assms(2) "by", folded y_def]
    have "BBox2i_xywh x y (min w (fst (bmax region) - x)) (min h (snd (bmax region) - y))
            \<in> set (bbox_tiles region w h)"
      using X(1) Y(1) by (auto simp: in_bbox_tiles)
    moreover have "c \<in> set (cells_of (BBox2i_xywh x y (min w (fst (bmax region) - x))
                                                     (min h (snd (bmax region) - y))))"
      using X(2,3) Y(2,3) by (simp add: cells_of_xywh c)
    ultimately show "c \<in> (\<Union>b \<in> set (bbox_tiles region w h). set (cells_of b))"
      by blast
  qed
qed

lemma bbox_tiles_no_overlap:
  assumes "0 < w" "0 < h"
    and "b1 \<in> set (bbox_tiles region w h)" "b2 \<in> set (bbox_tiles region w h)" "b1 \<noteq> b2"
  shows "set (cells_of b1) \<inter> set (cells_of b2) = {}"
proof -
  let ?xs = "block_starts (fst (bmin region)) (fst (bmax region)) w"
  let ?ys = "block_starts (snd (bmin region)) (snd (bmax region)) h"
  from assms(3) obtain x1 y1 where b1: "x1 \<in> set ?xs" "y1 \<in> set ?ys"
      "b1 = BBox2i_xywh x1 y1 (min w (fst (bmax region) - x1)) (min h (snd (bmax region) - y1))"
    by (auto simp: in_bbox_tiles)
  from assms(4) obtain x2 y2 where b2: "x2 \<in> set ?xs" "y2 \<in> set ?ys"
      "b2 = BBox2i_xywh x2 y2 (min w (fst (bmax region) - x2)) (min h (snd (bmax region) - y2))"
    by (auto simp: in_bbox_tiles)
  have False if "c \<in> set (cells_of b1)" "c \<in> set (cells_of b2)" for c
  proof -
    obtain cx cy where c: "c = (cx, cy)" by (cases c)
    have 1: "x1 \<le> cx" "cx < x1 + w" "y1 \<le> cy" "cy < y1 + h"
      using that(1) by (auto simp: b1(3) cells_of_xywh c min_def split: if_splits)
    have 2: "x2 \<le> cx" "cx < x2 + w" "y2 \<le> cy" "cy < y2 + h"
      using that(2) by (auto simp: b2(3) cells_of_xywh c min_def split: if_splits)
    have "x1 = x2"
      using block_unique[OF assms(1) b1(1) 1(1,2)] block_unique[OF assms(1) b2(1) 2(1,2)] by simp
    moreover have "y1 = y2"
      using block_unique[OF assms(2) b1(2) 1(3,4)] block_unique[OF assms(2) b2(2) 2(3,4)] by simp
    ultimately show False using assms(5) b1(3) b2(3) by simp
  qed
  then show ?thesis by blast
qed


lemma partition_grid_cover:
  "(\<Union>b \<in> set (partition_grid S). set (cells_of b)) = {0 ..< S} \<times> {0 ..< S}"
  using bbox_tiles_cover[of 4 4 "full_region S"]
  by (simp add: partition_grid_def full_region_def BBox2i_xywh_def)

lemma partition_grid_no_overlap:
  assumes "b1 \<in> set (partition_grid S)" "b2 \<in> set (partition_grid S)" "b1 \<noteq> b2"
  shows "set (cells_of b1) \<inter> set (cells_of b2) = {}"
  using assms unfolding partition_grid_def
  by (intro bbox_tiles_no_overlap[of 4 4]) simp_all

lemma assign_subset:
  assumes "1 \<le> num_jobs"
  shows "set (assign workunits job_id num_jobs) \<subseteq> set workunits"
  by (auto simp: set_assign[OF assms])

lemma set_job_cells:
  "set (job_cells S job_id num_jobs)
     = (\<Union>b \<in> set (assign (partition_grid S) job_id num_jobs). set (cells_of b))"
  by (simp add: job_cells_def)

text \<open>
  C3. For a grid of \<open>S\<close> by \<open>S\<close> cells and \<open>num_jobs \<ge> 1\<close>: the work units assigned to
  the jobs \<open>0, \<dots>, num_jobs - 1\<close> together are the whole partition, and two different
  jobs share no work unit; the work units of the partition cover exactly the cells
  \<open>(x, y)\<close> with \<open>0 \<le> x < S\<close> and \<open>0 \<le> y < S\<close>, and two different work units share no
  cell; hence the cells visited by the jobs together are exactly the cells of the grid,
  and two different jobs visit no common cell.
\<close>

theorem partition_coverage:
  assumes "1 \<le> num_jobs"
  shows "(\<Union>job_id \<in> {0 ..< num_jobs}. set (assign (partition_grid S) job_id num_jobs))
           = set (partition_grid S)
       \<and> (\<forall>j1 j2. j1 \<noteq> j2 \<longrightarrow>
           set (assign (partition_grid S) j1 num_jobs) \<inter> set (assign (partition_grid S) j2 num_jobs) = {})
       \<and> (\<Union>b \<in> set (partition_grid S). set (cells_of b)) = {0 ..< S} \<times> {0 ..< S}
       \<and> (\<forall>b1 b2. b1 \<in> set (partition_grid S) \<and> b2 \<in> set (partition_grid S) \<and> b1 \<noteq> b2 \<longrightarrow>
           set (cells_of b1) \<inter> set (cells_of b2) = {})
       \<and> (\<Union>job_id \<in> {0 ..< num_jobs}. set (job_cells S job_id num_jobs)) = {0 ..< S} \<times> {0 ..< S}
       \<and> (\<forall>j1 j2. j1 \<noteq> j2 \<longrightarrow>
           set (job_cells S j1 num_jobs) \<inter> set (job_cells S j2 num_jobs) = {})"
proof (intro conjI)
  show u: "(\<Union>job_id \<in> {0 ..< num_jobs}. set (assign (partition_grid S) job_id num_jobs))
           = set (partition_grid S)"
    by (rule assign_union[OF assms])
  show d: "\<forall>j1 j2. j1 \<noteq> j2 \<longrightarrow>
           set (assign (partition_grid S) j1 num_jobs) \<inter> set (assign (partition_grid S) j2 num_jobs) = {}"
    by (intro allI impI assign_disjoint[OF assms distinct_partition_grid])
  show c: "(\<Union>b \<in> set (partition_grid S). set (cells_of b)) = {0 ..< S} \<times> {0 ..< S}"
    by (rule partition_grid_cover)
  show "\<forall>b1 b2. b1 \<in> set (partition_grid S) \<and> b2 \<in> set (partition_grid S) \<and> b1 \<noteq> b2 \<longrightarrow>
           set (cells_of b1) \<inter> set (cells_of b2) = {}"
    using partition_grid_no_overlap by blast
  have "(\<Union>job_id \<in> {0 ..< num_jobs}. set (job_cells S job_id num_jobs))
      = (\<Union>b \<in> (\<Union>job_id \<in> {0 ..< num_jobs}. set (assign (partition_grid S) job_id num_jobs)).
           set (cells_of b))"
    unfolding set_job_cells by blast
  then show "(\<Union>job_id \<in> {0 ..< num_jobs}. set (job_cells S job_id num_jobs)) = {0 ..< S} \<times> {0 ..< S}"
    by (simp only: u c)
  show "\<forall>j1 j2. j1 \<noteq> j2 \<longrightarrow>
           set (job_cells S j1 num_jobs) \<inter> set (job_cells S j2 num_jobs) = {}"
  proof (intro allI impI)
    fix j1 j2 :: int
    assume ne: "j1 \<noteq> j2"
    have False if c1: "c \<in> set (job_cells S j1 num_jobs)" and c2: "c \<in> set (job_cells S j2 num_jobs)" for c
    proof -
      from c1 obtain b1 where b1: "b1 \<in> set (assign (partition_grid S) j1 num_jobs)" "c \<in> set (cells_of b1)"
        unfolding set_job_cells by blast
      from c2 obtain b2 where b2: "b2 \<in> set (assign (partition_grid S) j2 num_jobs)" "c \<in> set (cells_of b2)"
        unfolding set_job_cells by blast
      have "b1 \<noteq> b2"
        using assign_disjoint[OF assms distinct_partition_grid ne, of S] b1(1) b2(1) by blast
      moreover have "b1 \<in> set (partition_grid S)"
        by (rule subsetD[OF assign_subset[OF assms] b1(1)])
      moreover have "b2 \<in> set (partition_grid S)"
        by (rule subsetD[OF assign_subset[OF assms] b2(1)])
      ultimately have "set (cells_of b1) \<inter> set (cells_of b2) = {}"
        by (intro partition_grid_no_overlap[of b1 S b2])
      then show False using b1(2) b2(2) by blast
    qed
    then show "set (job_cells S j1 num_jobs) \<inter> set (job_cells S j2 num_jobs) = {}"
      by blast
  qed
qed

theorem partition_coverage_witness:
  "(1::int) \<le> 3
   \<and> partition_grid 2 = [\<lparr>bmin = (0, 0), bmax = (2, 2)\<rparr>]
   \<and> assign (partition_grid 8) 0 3 = [\<lparr>bmin = (0, 0), bmax = (4, 4)\<rparr>, \<lparr>bmin = (4, 4), bmax = (8, 8)\<rparr>]
   \<and> assign (partition_grid 8) 1 3 = [\<lparr>bmin = (4, 0), bmax = (8, 4)\<rparr>]
   \<and> assign (partition_grid 8) 2 3 = [\<lparr>bmin = (0, 4), bmax = (4, 8)\<rparr>]
   \<and> (\<Union>job_id \<in> {0 ..< 3}. set (assign (partition_grid 8) job_id 3)) = set (partition_grid 8)
   \<and> (\<Union>b \<in> set (partition_grid 8). set (cells_of b)) = {0 ..< 8} \<times> {0 ..< 8}
   \<and> (\<Union>job_id \<in> {0 ..< 3}. set (job_cells 8 job_id 3)) = {0 ..< 8} \<times> {0 ..< 8}
   \<and> set (job_cells 8 0 3) \<inter> set (job_cells 8 1 3) = {}"
proof -
  have n: "(1::int) \<le> 3" by simp
  have e: "partition_grid 2 = [\<lparr>bmin = (0, 0), bmax = (2, 2)\<rparr>]"
    "assign (partition_grid 8) 0 3 = [\<lparr>bmin = (0, 0), bmax = (4, 4)\<rparr>, \<lparr>bmin = (4, 4), bmax = (8, 8)\<rparr>]"
    "assign (partition_grid 8) 1 3 = [\<lparr>bmin = (4, 0), bmax = (8, 4)\<rparr>]"
    "assign (partition_grid 8) 2 3 = [\<lparr>bmin = (0, 4), bmax = (4, 8)\<rparr>]"
    by code_simp+
  note t = partition_coverage[OF n, of 8]
  note t1 = t[THEN conjunct1]
  note t3 = t[THEN conjunct2, THEN conjunct2, THEN conjunct1]
  note t5 = t[THEN conjunct2, THEN conjunct2, THEN conjunct2, THEN conjunct2, THEN conjunct1]
  note t6 = t[THEN conjunct2, THEN conjunct2, THEN conjunct2, THEN conjunct2, THEN conjunct2]
  have "(0::int) \<noteq> 1" by simp
  then have t6': "set (job_cells 8 0 3) \<inter> set (job_cells 8 1 3) = {}"
    by (rule t6[THEN spec, THEN spec, THEN mp])
  show ?thesis
    by (intro conjI n e t1 t3 t5 t6')
qed

section \<open>Properties of the reducer\<close>

lemma for_channels_Suc:
  "for_channels (Suc n) f v = (for_channels n f v)[n := f n (for_channels n f v ! n)]"
  by (simp add: for_channels_def)

lemma length_for_channels [simp]: "length (for_channels n f v) = length v"
  by (induction n) (simp_all add: for_channels_Suc, simp add: for_channels_def)

lemma for_channels_nth:
  "n \<le> length v \<Longrightarrow> i < length v \<Longrightarrow>
   for_channels n f v ! i = (if i < n then f i (v ! i) else v ! i)"
proof (induction n)
  case 0
  then show ?case by (simp add: for_channels_def)
next
  case (Suc n)
  then show ?case
    by (auto simp: for_channels_Suc nth_list_update less_Suc_eq)
qed

lemma per_pixel_simps [simp]:
  "cols (per_pixel f a b) = cols a"
  "rows (per_pixel f a b) = rows a"
  "length (data (per_pixel f a b)) = min (length (data a)) (length (data b))"
  by (simp_all add: per_pixel_def)

lemma per_pixel_nth:
  "j < length (data a) \<Longrightarrow> j < length (data b) \<Longrightarrow>
   data (per_pixel f a b) ! j = f (data a ! j) (data b ! j)"
  by (simp add: per_pixel_def)

lemma channel_image_simps [simp]:
  "cols (image_channel_cast ch (select_channel img k)) = cols img"
  "rows (image_channel_cast ch (select_channel img k)) = rows img"
  "length (data (image_channel_cast ch (select_channel img k))) = length (data img)"
  by (simp_all add: image_channel_cast_def select_channel_def)

lemma channel_image_nth:
  "j < length (data img) \<Longrightarrow>
   data (image_channel_cast ch (select_channel img k)) ! j = channel_cast ch (data img ! j ! k)"
  by (simp add: image_channel_cast_def select_channel_def)

text \<open>One pass of the summing loop, seen at the value with index \<open>j\<close>.\<close>

lemma sum_image_shape:
  assumes "length (data w) = N" "length ds = C - 1" "\<forall>d \<in> set ds. length (data d) = N"
    and "length (data img) = N"
  shows "length (data (fst (sum_image C ch (w, ds) img))) = N"
    and "length (snd (sum_image C ch (w, ds) img)) = C - 1"
    and "\<forall>d \<in> set (snd (sum_image C ch (w, ds) img)). length (data d) = N"
proof -
  show "length (data (fst (sum_image C ch (w, ds) img))) = N"
    using assms by (simp add: sum_image_def Let_def)
  show "length (snd (sum_image C ch (w, ds) img)) = C - 1"
    using assms by (simp add: sum_image_def Let_def)
  show "\<forall>d \<in> set (snd (sum_image C ch (w, ds) img)). length (data d) = N"
  proof
    fix d assume "d \<in> set (snd (sum_image C ch (w, ds) img))"
    then obtain k where k: "k < C - 1" "d = snd (sum_image C ch (w, ds) img) ! k"
      using \<open>length (snd (sum_image C ch (w, ds) img)) = C - 1\<close>
      by (auto simp: in_set_conv_nth)
    have "length (data (ds ! k)) = N"
      using assms(2,3) k(1) by simp
    then show "length (data d) = N"
      using k assms by (simp add: sum_image_def Let_def for_channels_nth)
  qed
qed

lemma sum_image_nth:
  assumes "length (data w) = N" "length ds = C - 1" "\<forall>d \<in> set ds. length (data d) = N"
    and "length (data img) = N" and "j < N"
  shows "data (fst (sum_image C ch (w, ds) img)) ! j
           = f32_add (data w ! j) (channel_cast ch (data img ! j ! (C - 1)))"
    and "k < C - 1 \<Longrightarrow> data (snd (sum_image C ch (w, ds) img) ! k) ! j
           = f32_add (data (ds ! k) ! j)
               (f32_mul (channel_cast ch (data img ! j ! (C - 1))) (channel_cast ch (data img ! j ! k)))"
proof -
  show "data (fst (sum_image C ch (w, ds) img)) ! j
           = f32_add (data w ! j) (channel_cast ch (data img ! j ! (C - 1)))"
    using assms by (simp add: sum_image_def Let_def per_pixel_nth channel_image_nth)
  assume k: "k < C - 1"
  then have "length (data (ds ! k)) = N"
    using assms(2,3) by simp
  then show "data (snd (sum_image C ch (w, ds) img) ! k) ! j
           = f32_add (data (ds ! k) ! j)
               (f32_mul (channel_cast ch (data img ! j ! (C - 1))) (channel_cast ch (data img ! j ! k)))"
    using assms k by (simp add: sum_image_def Let_def for_channels_nth per_pixel_nth channel_image_nth)
qed

lemma sum_images_fold:
  assumes "length (data w) = N" "length ds = C - 1" "\<forall>d \<in> set ds. length (data d) = N"
    and "\<forall>img \<in> set input. length (data img) = N" and "j < N"
  shows "length (data (fst (foldl (sum_image C ch) (w, ds) input))) = N
       \<and> length (snd (foldl (sum_image C ch) (w, ds) input)) = C - 1
       \<and> (\<forall>d \<in> set (snd (foldl (sum_image C ch) (w, ds) input)). length (data d) = N)
       \<and> data (fst (foldl (sum_image C ch) (w, ds) input)) ! j
           = foldl f32_add (data w ! j) (map (\<lambda>img. channel_cast ch (data img ! j ! (C - 1))) input)
       \<and> (\<forall>k < C - 1. data (snd (foldl (sum_image C ch) (w, ds) input) ! k) ! j
           = foldl f32_add (data (ds ! k) ! j)
               (map (\<lambda>img. f32_mul (channel_cast ch (data img ! j ! (C - 1)))
                                    (channel_cast ch (data img ! j ! k))) input))"
  using assms
proof (induction input arbitrary: w ds)
  case Nil
  then show ?case by simp
next
  case (Cons img input)
  obtain w' ds' where step: "sum_image C ch (w, ds) img = (w', ds')"
    by (cases "sum_image C ch (w, ds) img")
  have img: "length (data img) = N" using Cons.prems(4) by simp
  have shape: "length (data w') = N" "length ds' = C - 1" "\<forall>d \<in> set ds'. length (data d) = N"
    using sum_image_shape[OF Cons.prems(1-3) img, where ch = ch] step by simp_all
  have vals: "data w' ! j = f32_add (data w ! j) (channel_cast ch (data img ! j ! (C - 1)))"
    "\<And>k. k < C - 1 \<Longrightarrow> data (ds' ! k) ! j = f32_add (data (ds ! k) ! j)
               (f32_mul (channel_cast ch (data img ! j ! (C - 1))) (channel_cast ch (data img ! j ! k)))"
    using sum_image_nth[OF Cons.prems(1-3) img Cons.prems(5), where ch = ch] step by simp_all
  have rest: "\<forall>img \<in> set input. length (data img) = N" using Cons.prems(4) by simp
  from Cons.IH[OF shape rest Cons.prems(5)] show ?case
    by (simp add: step vals)
qed


lemma pixel_index:
  assumes "x < c" "y < r"
  shows "y * c + x < c * (r::nat)"
proof -
  have "y * c + x < y * c + c" using assms(1) by simp
  also have "\<dots> = c * Suc y" by simp
  also have "\<dots> \<le> c * r" using assms(2) by (intro mult_le_mono2) simp
  finally show ?thesis .
qed

lemma wf_input_Cons:
  assumes "wf_input C input"
  obtains front others where "input = front # others"
    and "\<forall>img \<in> set input. length (data img) = cols front * rows front"
    and "\<forall>img \<in> set input. cols img = cols front"
proof -
  from assms obtain front others where i: "input = front # others"
    by (cases input) (auto simp: wf_input_def)
  have "\<forall>img \<in> set input. length (data img) = cols front * rows front"
    using assms i by (auto simp: wf_input_def wf_image_def same_size_def list_all_iff)
  moreover have "\<forall>img \<in> set input. cols img = cols front"
    using assms i by (auto simp: wf_input_def same_size_def list_all_iff)
  ultimately show thesis using i that by blast
qed

text \<open>The output of the reducer at one pixel, channel by channel.\<close>

lemma WeightedAverage_pixel:
  assumes "wf_input C input" and "x < cols (hd input)" and "y < rows (hd input)"
  shows "\<exists>out. WeightedAverage C ch cmin cmax input input_header = Some out
           \<and> cols out = cols (hd input) \<and> rows out = rows (hd input)
           \<and> length (pixel_at out x y) = Suc (C - 1)
           \<and> (\<forall>k < C - 1. pixel_at out x y ! k =
                 native_cast ch (f32_div (weighted_sum C ch input k x y) (summed_weight C ch input x y)))
           \<and> pixel_at out x y ! (C - 1) =
                 native_cast ch (clamp (summed_weight C ch input x y)
                                   (channel_cast ch cmin) (channel_cast ch cmax))"
proof -
  from assms(1) obtain front others where input: "input = front # others"
    and len: "\<forall>img \<in> set input. length (data img) = cols front * rows front"
    and cs: "\<forall>img \<in> set input. cols img = cols front"
    by (rule wf_input_Cons)
  define N where "N = cols front * rows front"
  define j where "j = y * cols front + x"
  define zero where "zero = zero_image (cols front) (rows front)"
  define totals where "totals = foldl (sum_image C ch) (zero, replicate (C - 1) zero) input"
  define sw where "sw = fst totals"
  define swd where "swd = for_channels (C - 1) (\<lambda>i d. per_pixel f32_div d sw) (snd totals)"
  define alpha where "alpha = threshold sw 0 (channel_cast ch cmin) (channel_cast ch cmax)"
  define out where "out = \<lparr>cols = cols front, rows = rows front,
      data = map (\<lambda>j. map (\<lambda>i. native_cast ch (data (swd ! i) ! j)) [0 ..< C - 1]
                       @ [native_cast ch (data alpha ! j)]) [0 ..< cols front * rows front]\<rparr>"
  have jN: "j < N"
    using assms(2,3) input by (simp add: j_def N_def pixel_index)
  have z: "length (data zero) = N" "data zero ! j = Finite False 0"
    using jN by (simp_all add: zero_def zero_image_def N_def)
  have zs: "length (replicate (C - 1) zero) = C - 1"
    "\<forall>d \<in> set (replicate (C - 1) zero). length (data d) = N"
    using z by simp_all
  have len': "\<forall>img \<in> set input. length (data img) = N"
    using len by (simp add: N_def)
  note fold = sum_images_fold[OF z(1) zs len' jN, where ch = ch, folded totals_def]
  have sw_len: "length (data sw) = N" and ds_len: "length (snd totals) = C - 1"
    and d_len: "\<forall>d \<in> set (snd totals). length (data d) = N"
    using fold by (simp_all add: sw_def)
  have at_j: "\<And>img. img \<in> set input \<Longrightarrow> data img ! j = pixel_at img x y"
    using cs by (simp add: pixel_at_def j_def)
  have sw_j: "data sw ! j = summed_weight C ch input x y"
  proof -
    have m: "map (\<lambda>img. channel_cast ch (data img ! j ! (C - 1))) input
        = map (\<lambda>img. alpha_at C ch img x y) input"
      by (rule map_cong) (simp_all add: at_j alpha_at_def)
    have "data sw ! j = foldl f32_add (data zero ! j)
            (map (\<lambda>img. channel_cast ch (data img ! j ! (C - 1))) input)"
      using fold unfolding sw_def by blast
    then show ?thesis
      by (simp only: m z(2) summed_weight_def)
  qed
  have swd_j: "data (swd ! k) ! j = f32_div (weighted_sum C ch input k x y) (summed_weight C ch input x y)"
    if k: "k < C - 1" for k
  proof -
    have m: "map (\<lambda>img. f32_mul (channel_cast ch (data img ! j ! (C - 1)))
                              (channel_cast ch (data img ! j ! k))) input
        = map (\<lambda>img. f32_mul (alpha_at C ch img x y) (value_at ch img k x y)) input"
      by (rule map_cong) (simp_all add: at_j alpha_at_def value_at_def)
    have "data (snd totals ! k) ! j = foldl f32_add (data (replicate (C - 1) zero ! k) ! j)
            (map (\<lambda>img. f32_mul (channel_cast ch (data img ! j ! (C - 1)))
                                  (channel_cast ch (data img ! j ! k))) input)"
      using fold k by blast
    also have "data (replicate (C - 1) zero ! k) ! j = Finite False 0"
      using k z(2) by simp
    finally have ws: "data (snd totals ! k) ! j = weighted_sum C ch input k x y"
      by (simp only: m weighted_sum_def)
    have "length (data (snd totals ! k)) = N"
      using d_len ds_len k by simp
    then show ?thesis
      using k ds_len sw_len jN ws sw_j by (simp add: swd_def for_channels_nth per_pixel_nth)
  qed
  have alpha_j: "data alpha ! j = clamp (summed_weight C ch input x y)
                                    (channel_cast ch cmin) (channel_cast ch cmax)"
    using sw_len jN sw_j by (simp add: alpha_def threshold_def)
  have wa: "WeightedAverage C ch cmin cmax input input_header = Some out"
    by (simp add: WeightedAverage_def input Let_def out_def alpha_def swd_def sw_def totals_def zero_def)
  have px: "pixel_at out x y = map (\<lambda>i. native_cast ch (data (swd ! i) ! j)) [0 ..< C - 1]
                       @ [native_cast ch (data alpha ! j)]"
    using jN by (simp add: pixel_at_def out_def j_def[symmetric] N_def)
  have "length (pixel_at out x y) = Suc (C - 1)"
    by (simp add: px)
  moreover have "\<forall>k < C - 1. pixel_at out x y ! k =
                 native_cast ch (f32_div (weighted_sum C ch input k x y) (summed_weight C ch input x y))"
    by (simp add: px nth_append swd_j)
  moreover have "pixel_at out x y ! (C - 1) =
                 native_cast ch (clamp (summed_weight C ch input x y)
                                   (channel_cast ch cmin) (channel_cast ch cmax))"
    by (simp add: px nth_append alpha_j)
  moreover have "cols out = cols (hd input)" "rows out = rows (hd input)"
    by (simp_all add: out_def input)
  ultimately show ?thesis using wa by blast
qed

lemma WeightedAverage_Some:
  "input \<noteq> [] \<Longrightarrow> \<exists>out. WeightedAverage C ch cmin cmax input input_header = Some out
      \<and> cols out = cols (hd input) \<and> rows out = rows (hd input)"
  by (cases input) (simp_all add: WeightedAverage_def Let_def)

lemma wf_input_single_pixel: "length p = C \<Longrightarrow> length q = C \<Longrightarrow> wf_input C [single_pixel p, single_pixel q]"
  by (simp add: wf_input_def wf_image_def same_size_def single_pixel_def)

lemma wf_input_single_pixel1: "length p = C \<Longrightarrow> wf_input C [single_pixel p]"
  by (simp add: wf_input_def wf_image_def same_size_def single_pixel_def)

section \<open>Binary32 rounding\<close>

text \<open>\<open>floor_log2\<close> is the binary exponent of a positive rational.\<close>

lemma two_powi_bitlen_bounds:
  assumes "0 < a"
  shows "(2::rat) powi (bitlen a - 1) \<le> of_int a" and "of_int a < (2::rat) powi bitlen a"
proof -
  from bitlen_bounds[OF assms] have lo: "2 ^ nat (bitlen a - 1) \<le> a" and hi: "a < 2 ^ nat (bitlen a)"
    by simp_all
  have b1: "1 \<le> bitlen a"
    using assms bitlen_eq_zero_iff[of a] bitlen_nonneg[of a] by linarith
  have "(2::rat) powi (bitlen a - 1) = 2 ^ nat (bitlen a - 1)"
    using b1 by (simp add: power_int_def)
  also have "\<dots> = of_int (2 ^ nat (bitlen a - 1))" by simp
  also have "\<dots> \<le> of_int a" using lo by (simp only: of_int_le_iff)
  finally show "(2::rat) powi (bitlen a - 1) \<le> of_int a" .
  have "(of_int a :: rat) < of_int (2 ^ nat (bitlen a))"
    using hi by (simp only: of_int_less_iff)
  also have "\<dots> = 2 powi bitlen a"
    using b1 by (simp add: power_int_def)
  finally show "of_int a < (2::rat) powi bitlen a" .
qed

lemma floor_log2_bounds:
  assumes "0 < r"
  shows "2 powi floor_log2 r \<le> r" and "r < 2 powi (floor_log2 r + 1)"
proof -
  obtain a b where q: "quotient_of r = (a, b)" by (cases "quotient_of r")
  have b: "0 < b" using quotient_of_denom_pos[OF q] .
  have r: "r = of_int a / of_int b" using quotient_of_div[OF q] .
  have a: "0 < a"
    using assms b r by (simp add: zero_less_divide_iff)
  define d where "d = bitlen a - bitlen b"
  note A = two_powi_bitlen_bounds[OF a] and B = two_powi_bitlen_bounds[OF b]
  have bpos: "(0::rat) < of_int b" using b by simp
  have "2 powi (d - 1) = (2::rat) powi (bitlen a - 1) / 2 powi bitlen b"
    by (simp add: d_def power_int_diff)
  also have "\<dots> \<le> of_int a / 2 powi bitlen b"
    using A(1) by (simp add: divide_right_mono)
  also have "\<dots> < of_int a / of_int b"
    using B(2) a bpos by (simp add: divide_strict_left_mono)
  finally have lo: "2 powi (d - 1) < r" by (simp add: r)
  have "r = of_int a / of_int b" by (rule r)
  also have "\<dots> < 2 powi bitlen a / of_int b"
    using A(2) bpos by (simp add: divide_strict_right_mono)
  also have "\<dots> \<le> 2 powi bitlen a / 2 powi (bitlen b - 1)"
    using B(1) bpos by (intro divide_left_mono) simp_all
  also have "\<dots> = 2 powi (d + 1)"
    by (simp add: d_def power_int_diff[symmetric] algebra_simps)
  finally have hi: "r < 2 powi (d + 1)" .
  have fl: "floor_log2 r = (if 2 powi d \<le> r then d else d - 1)"
    by (simp add: floor_log2_def q d_def)
  show "2 powi floor_log2 r \<le> r"
    using lo by (simp add: fl)
  show "r < 2 powi (floor_log2 r + 1)"
    using hi by (simp add: fl)
qed


lemma round_f32_examples:
  "round_f32 False (1 / 10) = Finite False (13421773 / 134217728)"
  "round_f32 False 16777217 = Finite False 16777216"
  "round_f32 False 16777219 = Finite False 16777220"
  "round_f32 False (2 ^ 128 - 2 ^ 103) = Infinity False"
  "round_f32 False (2 ^ 128 - 2 ^ 103 - 1) = Finite False (2 ^ 128 - 2 ^ 104)"
  "round_f32 True (1 / 2 ^ 150) = Finite True 0"
  "round_f32 False (3 / 2 ^ 150) = Finite False (1 / 2 ^ 148)"
  by code_simp+

text \<open>Small integers are rounded to themselves.\<close>

lemma round_half_even_of_int [simp]: "round_half_even (of_int k) = k"
  by (simp add: round_half_even_def)

lemma floor_log2_of_int_le:
  assumes "0 < n" "n < 2 ^ 24"
  shows "floor_log2 (of_int n) \<le> 23"
proof -
  have "bitlen n \<le> 24"
    using assms by (simp add: bitlen_le_iff_power)
  moreover have "bitlen 1 = 1"
    by (simp add: bitlen_alt_def)
  ultimately show ?thesis
    by (simp add: floor_log2_def Let_def)
qed

lemma quantum_of_int:
  assumes "0 < n" "n < 2 ^ 24"
  obtains k where "quantum (of_int n) = 1 / 2 ^ k"
proof -
  define z where "z = max (floor_log2 (of_int n) - 23) (- 149)"
  have "z \<le> 0"
    using floor_log2_of_int_le[OF assms] by (simp add: z_def)
  then have "(2::rat) powi z = 1 / 2 ^ nat (- z)"
    by (cases "z = 0") (simp_all add: power_int_def inverse_eq_divide power_one_over)
  then show thesis
    using that by (simp add: quantum_def z_def)
qed

lemma round_f32_of_int:
  assumes "0 \<le> n" "n < 2 ^ 24"
  shows "round_f32 s (of_int n) = Finite s (of_int n)"
proof (cases "n = 0")
  case True
  then show ?thesis by (simp add: round_f32_def)
next
  case False
  with assms have pos: "0 < n" by simp
  from quantum_of_int[OF pos assms(2)] obtain k where q: "quantum (of_int n) = 1 / 2 ^ k" .
  have "(of_int n :: rat) / (1 / 2 ^ k) = of_int (n * 2 ^ k)"
    by simp
  then have "round_half_even (of_int n / quantum (of_int n)) = n * 2 ^ k"
    unfolding q by (simp only: round_half_even_of_int)
  then have m: "of_int (round_half_even (of_int n / quantum (of_int n))) * quantum (of_int n)
        = (of_int n :: rat)"
    by (simp add: q)
  have "(of_int n :: rat) < 2 ^ 24"
    using assms(2) by (metis of_int_less_numeral_power_cancel_iff)
  also have "\<dots> < (2::rat) ^ 128" by simp
  finally have "\<not> (2::rat) ^ 128 \<le> of_int n" by simp
  then show ?thesis
    using False unfolding round_f32_def Let_def m by simp
qed


section \<open>8-bit channels\<close>

text \<open>Facts about the accumulator on small non-negative integers.\<close>

lemma f32_mul_of_int:
  assumes "0 \<le> a" "0 \<le> v" "a * v < 2 ^ 24"
  shows "f32_mul (Finite False (of_int a)) (Finite False (of_int v)) = Finite False (of_int (a * v))"
proof -
  have "0 \<le> a * v" using assms(1,2) by simp
  then have "round_f32 False (of_int (a * v)) = Finite False (of_int (a * v))"
    using assms(3) by (rule round_f32_of_int)
  then show ?thesis by simp
qed

lemma f32_add_zero_of_int:
  assumes "0 \<le> n" "n < 2 ^ 24"
  shows "f32_add (Finite False 0) (Finite False (of_int n)) = Finite False (of_int n)"
proof (cases "n = 0")
  case True
  then show ?thesis by (simp add: signed_def)
next
  case False
  have "\<bar>rat_of_int n\<bar> = of_int n" using assms(1) by simp
  then show ?thesis
    using False assms round_f32_of_int[OF assms, of False] by (simp add: signed_def Let_def)
qed

lemma f32_div_of_int:
  assumes "0 < a" "0 \<le> v" "v < 2 ^ 24"
  shows "f32_div (Finite False (of_int (a * v))) (Finite False (of_int a)) = Finite False (of_int v)"
proof -
  have "rat_of_int (a * v) / rat_of_int a = of_int v"
    using assms(1) by simp
  moreover have "round_f32 False (of_int v) = Finite False (of_int v)"
    using assms(2,3) by (rule round_f32_of_int)
  ultimately show ?thesis
    using assms(1) by (simp del: of_int_mult)
qed

lemma f32_less_of_int:
  "f32_less (Finite False (of_int a)) (Finite False (of_int b)) \<longleftrightarrow> a < b"
  by (simp add: signed_def)

lemma clamp_of_int:
  "clamp (Finite False (of_int a)) (Finite False (of_int lo)) (Finite False (of_int hi))
     = Finite False (of_int (if hi < a then hi else if a < lo then lo else a))"
  unfolding clamp_def f32_less_of_int by simp

lemma f32_to_uint8_of_int:
  "f32_to_uint8 (Finite False (of_int n)) = (if 0 \<le> n \<and> n \<le> 255 then Some (word_of_int n) else None)"
  by (simp add: f32_to_uint8_def)

text \<open>The same facts on 8-bit channel values.\<close>

lemma uint8_to_f32_alt: "uint8_to_f32 w = Finite False (of_int (uint w))"
  by (simp add: uint8_to_f32_def)

lemma uint8_bounds: "0 \<le> uint (w :: 8 word)" "uint (w :: 8 word) < 256"
  using uint_bounded[of w] by simp_all

lemma uint8_product_bound: "uint (a :: 8 word) * uint (v :: 8 word) < 2 ^ 24"
proof -
  have "uint a * uint v \<le> 255 * 255"
    using uint8_bounds[of a] uint8_bounds[of v] by (intro mult_mono) simp_all
  then show ?thesis by simp
qed

lemma uint8_single_weight:
  "f32_add (Finite False 0) (uint8_to_f32 a) = uint8_to_f32 a"
  unfolding uint8_to_f32_alt
proof (rule f32_add_zero_of_int)
  show "0 \<le> uint a" by simp
  show "uint a < 2 ^ 24" using uint8_bounds(2)[of a] by simp
qed

lemma uint8_single_product:
  "f32_add (Finite False 0) (f32_mul (uint8_to_f32 a) (uint8_to_f32 v))
     = Finite False (of_int (uint a * uint v))"
proof -
  have "f32_mul (uint8_to_f32 a) (uint8_to_f32 v) = Finite False (of_int (uint a * uint v))"
    unfolding uint8_to_f32_alt
    by (rule f32_mul_of_int) (simp_all only: uint8_product_bound uint8_bounds)
  moreover have "f32_add (Finite False 0) (Finite False (of_int (uint a * uint v)))
      = Finite False (of_int (uint a * uint v))"
    by (rule f32_add_zero_of_int) (simp, rule uint8_product_bound)
  ultimately show ?thesis by (simp only:)
qed

lemma uint8_single_quotient:
  assumes "a \<noteq> 0"
  shows "f32_div (Finite False (of_int (uint a * uint v))) (uint8_to_f32 a) = uint8_to_f32 v"
  unfolding uint8_to_f32_alt
proof (rule f32_div_of_int)
  have "uint a \<noteq> 0" using assms by (simp add: uint_0_iff)
  then show "0 < uint a" using uint8_bounds(1)[of a] by linarith
  show "0 \<le> uint v" by simp
  show "uint v < 2 ^ 24" using uint8_bounds(2)[of v] by simp
qed

lemma f32_to_uint8_inverse: "f32_to_uint8 (uint8_to_f32 v) = Some v"
proof -
  have "uint v \<le> 255" using uint8_bounds(2)[of v] by simp
  then show ?thesis
    unfolding uint8_to_f32_alt f32_to_uint8_of_int by simp
qed

lemma uint8_clamp:
  "f32_to_uint8 (clamp (uint8_to_f32 a) (uint8_to_f32 lo) (uint8_to_f32 hi)) = Some (clamp_uint8 a lo hi)"
proof -
  have "clamp (uint8_to_f32 a) (uint8_to_f32 lo) (uint8_to_f32 hi) = uint8_to_f32 (clamp_uint8 a lo hi)"
    unfolding uint8_to_f32_alt clamp_of_int clamp_uint8_def word_less_def
    by (simp only: if_distrib[of uint] if_distrib[of rat_of_int] if_distrib[of "Finite False"])
  then show ?thesis by (simp only: f32_to_uint8_inverse)
qed

text \<open>The error of rounding a positive rational below 256.\<close>

lemma round_half_even_error: "\<bar>of_int (round_half_even x) - x\<bar> \<le> 1 / 2"
proof -
  have "of_int \<lfloor>x\<rfloor> \<le> x" "x < of_int \<lfloor>x\<rfloor> + 1"
    by linarith+
  then show ?thesis
    by (auto simp: round_half_even_def Let_def abs_le_iff)
qed

lemma quantum_pos: "0 < quantum r"
  by (simp add: quantum_def)

lemma quantum_small:
  assumes "0 < r" "r < 256"
  shows "quantum r \<le> 1 / 65536"
proof -
  have "(2::rat) powi floor_log2 r < 2 powi 8"
    using floor_log2_bounds(1)[OF assms(1)] assms(2) by simp
  then have "floor_log2 r < 8"
    by (rule power_int_le_imp_less_exp[rotated]) simp_all
  then have "max (floor_log2 r - 23) (- 149) \<le> - 16"
    by simp
  then have "(2::rat) powi max (floor_log2 r - 23) (- 149) \<le> 2 powi (- 16)"
    by (intro power_int_increasing) simp_all
  then show ?thesis
    by (simp add: quantum_def power_int_minus inverse_eq_divide)
qed

lemma round_f32_near:
  assumes "0 < r" "r < 256"
  obtains m where "round_f32 s r = Finite s m" and "\<bar>m - r\<bar> \<le> 1 / 131072"
proof -
  define q where "q = quantum r"
  define m where "m = of_int (round_half_even (r / q)) * q"
  have q: "0 < q" "q \<le> 1 / 65536"
    using quantum_pos quantum_small[OF assms] by (simp_all add: q_def)
  have "m - r = (of_int (round_half_even (r / q)) - r / q) * q"
    using q(1) by (simp add: m_def algebra_simps)
  then have "\<bar>m - r\<bar> = \<bar>of_int (round_half_even (r / q)) - r / q\<bar> * q"
    using q(1) by (simp add: abs_mult)
  also have "\<dots> \<le> (1 / 2) * q"
    using round_half_even_error[of "r / q"] q(1) by (intro mult_right_mono) simp_all
  also have "\<dots> \<le> (1 / 2) * (1 / 65536)"
    using q(2) by (intro mult_left_mono) simp_all
  finally have err: "\<bar>m - r\<bar> \<le> 1 / 131072" by simp
  then have "m < 257" using assms(2) by linarith
  also have "(257::rat) < 2 ^ 128" by simp
  finally have "m < 2 ^ 128" .
  then have "round_f32 s r = Finite s m"
    using assms(1) by (simp add: round_f32_def Let_def m_def q_def)
  then show thesis using err by (rule that)
qed

text \<open>
  The quotient of two integers, the divisor below \<open>2^16\<close> and the quotient below 256,
  rounded to \<^verbatim>\<open>float32\<close> and truncated, is the integer quotient.
\<close>

lemma f32_trunc_quotient:
  assumes "0 \<le> p" "0 < w" "w < 2 ^ 16" "p div w \<le> 255"
  shows "f32_trunc (round_f32 False (of_int p / of_int w)) = Some (p div w)"
proof (cases "p mod w = 0")
  case True
  then have "rat_of_int p / of_int w = of_int (p div w)"
    using assms(2) by (simp add: of_int_div dvd_eq_mod_eq_0)
  moreover have "round_f32 False (of_int (p div w)) = Finite False (of_int (p div w))"
    using assms by (intro round_f32_of_int) (simp_all add: pos_imp_zdiv_nonneg_iff)
  ultimately show ?thesis by simp
next
  case False
  define r where "r = rat_of_int p / of_int w"
  define n where "n = p div w"
  have wpos: "(0::rat) < of_int w" using assms(2) by simp
  have pm: "p = n * w + p mod w" by (simp add: n_def)
  have md: "1 \<le> p mod w" "p mod w \<le> w - 1"
    using False assms(2) pos_mod_sign[of w p] pos_mod_bound[of w p] by linarith+
  have "rat_of_int p = of_int n * of_int w + of_int (p mod w)"
    by (subst pm) (simp only: of_int_add of_int_mult)
  then have r_eq: "r = of_int n + of_int (p mod w) / of_int w"
    using wpos by (simp add: r_def field_simps)
  have "rat_of_int w < of_int 65536"
    using assms(3) by (simp only: of_int_less_iff) simp
  then have inv: "1 / 65536 < 1 / rat_of_int w"
    using wpos by (intro divide_strict_left_mono) simp_all
  have lo: "of_int n + 1 / of_int w \<le> r"
    using md(1) wpos by (simp add: r_eq divide_right_mono)
  have "rat_of_int (p mod w) \<le> of_int (w - 1)"
    using md(2) by (simp only: of_int_le_iff)
  then have "rat_of_int (p mod w) / of_int w \<le> (of_int w - 1) / of_int w"
    using wpos by (intro divide_right_mono) simp_all
  moreover have "(rat_of_int w - 1) / of_int w = 1 - 1 / of_int w"
    using wpos by (simp add: diff_divide_distrib)
  ultimately have hi: "r \<le> of_int n + 1 - 1 / of_int w"
    by (simp add: r_eq)
  have n0: "0 \<le> n" using assms(1,2) by (simp add: n_def pos_imp_zdiv_nonneg_iff)
  have n0': "0 \<le> rat_of_int n" using n0 by simp
  have iw: "0 < 1 / rat_of_int w" using wpos by simp
  have "0 < r" using lo n0' iw by linarith
  moreover have "r < 256"
  proof -
    have "rat_of_int n \<le> 255" using assms(4) by (simp add: n_def)
    then show ?thesis using hi iw by linarith
  qed
  ultimately obtain m where m: "round_f32 False r = Finite False m" "\<bar>m - r\<bar> \<le> 1 / 131072"
    by (rule round_f32_near)
  have "of_int n \<le> m" "m < of_int n + 1"
    using m(2) lo hi inv by linarith+
  then have "\<lfloor>m\<rfloor> = n" by (simp add: floor_unique)
  then show ?thesis
    by (simp add: m(1) r_def[symmetric] n_def)
qed

text \<open>Sums of small non-negative integers are exact in the accumulator.\<close>

lemma f32_add_of_int:
  assumes "0 \<le> a" "0 \<le> b" "a + b < 2 ^ 24"
  shows "f32_add (Finite False (of_int a)) (Finite False (of_int b)) = Finite False (of_int (a + b))"
proof (cases "a + b = 0")
  case True
  then have "rat_of_int a + rat_of_int b = 0"
    by (simp only: of_int_add[symmetric] of_int_0)
  then show ?thesis using True by (simp add: signed_def)
next
  case False
  have s: "0 \<le> a + b" using assms(1,2) by simp
  have nz: "rat_of_int a + rat_of_int b \<noteq> 0"
    using False by (simp only: of_int_add[symmetric] of_int_eq_0_iff) simp
  have pos: "\<not> rat_of_int a + rat_of_int b < 0"
    using assms(1,2) by (simp add: add_nonneg_nonneg not_less)
  have ab: "\<bar>rat_of_int a + rat_of_int b\<bar> = of_int (a + b)"
    using assms(1,2) by simp
  show ?thesis
    using nz pos round_f32_of_int[OF s assms(3), of False]
    by (simp add: signed_def Let_def ab del: of_int_add)
qed

lemma foldl_f32_add_of_int:
  assumes "\<forall>n \<in> set ns. 0 \<le> n" "0 \<le> s0" "s0 + sum_list ns < 2 ^ 24"
  shows "foldl f32_add (Finite False (of_int s0)) (map (\<lambda>n. Finite False (of_int n)) ns)
           = Finite False (of_int (s0 + sum_list ns))"
  using assms
proof (induction ns arbitrary: s0)
  case Nil
  then show ?case by simp
next
  case (Cons n ns)
  have n: "0 \<le> n" and rest: "\<forall>n \<in> set ns. 0 \<le> n"
    using Cons.prems(1) by simp_all
  have "0 \<le> sum_list ns" using rest by (simp add: sum_list_nonneg)
  then have small: "s0 + n < 2 ^ 24"
    using Cons.prems(3) by simp
  have step: "f32_add (Finite False (of_int s0)) (Finite False (of_int n)) = Finite False (of_int (s0 + n))"
    using Cons.prems(2) n small by (rule f32_add_of_int)
  have "foldl f32_add (Finite False (of_int (s0 + n))) (map (\<lambda>n. Finite False (of_int n)) ns)
      = Finite False (of_int ((s0 + n) + sum_list ns))"
    using rest Cons.prems(2,3) n by (intro Cons.IH) (simp_all add: add.assoc)
  then show ?case
    by (simp only: list.map foldl_Cons step sum_list.Cons add.assoc)
qed

lemma sum_list_bounded:
  assumes "\<forall>x \<in> set xs. f x \<le> (c::int)"
  shows "sum_list (map f xs) \<le> int (length xs) * c"
  using assms by (induction xs) (simp_all add: algebra_simps)

lemma sum_list_scaled:
  assumes "\<forall>x \<in> set xs. 0 \<le> g x \<and> f x \<le> (c::int)" "0 \<le> c"
  shows "sum_list (map (\<lambda>x. g x * f x) xs) \<le> c * sum_list (map g xs)"
  using assms
proof (induction xs)
  case Nil
  then show ?case by simp
next
  case (Cons x xs)
  have "g x * f x \<le> g x * c"
    using Cons.prems(1) by (intro mult_left_mono) simp_all
  moreover have "sum_list (map (\<lambda>x. g x * f x) xs) \<le> c * sum_list (map g xs)"
    using Cons by simp
  ultimately show ?case by (simp add: algebra_simps)
qed


lemma uint8_totals:
  assumes "length input \<le> 257"
  shows "0 \<le> alpha_total C input x y" and "alpha_total C input x y < 2 ^ 16"
    and "0 \<le> weighted_total C input k x y"
    and "weighted_total C input k x y \<le> 255 * alpha_total C input x y"
    and "weighted_total C input k x y < 2 ^ 24"
proof -
  let ?a = "\<lambda>img :: 8 word list ImageView. uint (pixel_at img x y ! (C - 1))"
  let ?v = "\<lambda>img :: 8 word list ImageView. uint (pixel_at img x y ! k)"
  have le: "?a img \<le> 255" "?v img \<le> 255" "0 \<le> ?a img" "0 \<le> ?v img" for img
    using uint8_bounds(2)[of "pixel_at img x y ! (C - 1)"] uint8_bounds(2)[of "pixel_at img x y ! k"]
    by simp_all
  show a0: "0 \<le> alpha_total C input x y"
    unfolding alpha_total_def by (rule sum_list_nonneg) auto
  have "alpha_total C input x y \<le> int (length input) * 255"
    unfolding alpha_total_def by (rule sum_list_bounded) (use le in simp)
  also have "\<dots> \<le> 257 * 255" using assms by simp
  finally have a1: "alpha_total C input x y \<le> 65535" by simp
  then show "alpha_total C input x y < 2 ^ 16" by simp
  show "0 \<le> weighted_total C input k x y"
    unfolding weighted_total_def by (rule sum_list_nonneg) auto
  show w: "weighted_total C input k x y \<le> 255 * alpha_total C input x y"
    unfolding weighted_total_def alpha_total_def
    by (rule sum_list_scaled) (use le in simp_all)
  then show "weighted_total C input k x y < 2 ^ 24"
    using a1 by simp
qed

lemma uint8_sums_exact:
  assumes "length input \<le> 257"
  shows "summed_weight C uint8_channel input x y = Finite False (of_int (alpha_total C input x y))"
    and "weighted_sum C uint8_channel input k x y = Finite False (of_int (weighted_total C input k x y))"
proof -
  note t = uint8_totals[OF assms]
  have "map (\<lambda>img. alpha_at C uint8_channel img x y) input
      = map (\<lambda>n. Finite False (of_int n)) (map (\<lambda>img. uint (pixel_at img x y ! (C - 1))) input)"
    by (simp only: map_map comp_def alpha_at_def uint8_channel_def channel.simps uint8_to_f32_alt)
  moreover have "foldl f32_add (Finite False (of_int 0))
        (map (\<lambda>n. Finite False (of_int n)) (map (\<lambda>img. uint (pixel_at img x y ! (C - 1))) input))
      = Finite False (of_int (0 + alpha_total C input x y))"
  proof -
    have "alpha_total C input x y < 2 ^ 24"
      using t(2)[of C x y] by simp
    then show ?thesis
      unfolding alpha_total_def by (intro foldl_f32_add_of_int) simp_all
  qed
  ultimately show "summed_weight C uint8_channel input x y = Finite False (of_int (alpha_total C input x y))"
    by (simp only: summed_weight_def of_int_0 add_0_left)
  have "f32_mul (uint8_to_f32 a) (uint8_to_f32 v) = Finite False (of_int (uint a * uint v))" for a v :: "8 word"
    unfolding uint8_to_f32_alt
    by (rule f32_mul_of_int) (simp_all only: uint8_product_bound uint8_bounds)
  then have "map (\<lambda>img. f32_mul (alpha_at C uint8_channel img x y) (value_at uint8_channel img k x y)) input
      = map (\<lambda>n. Finite False (of_int n))
          (map (\<lambda>img. uint (pixel_at img x y ! (C - 1)) * uint (pixel_at img x y ! k)) input)"
    by (simp only: map_map comp_def alpha_at_def value_at_def uint8_channel_def channel.simps)
  moreover have "foldl f32_add (Finite False (of_int 0))
        (map (\<lambda>n. Finite False (of_int n))
          (map (\<lambda>img. uint (pixel_at img x y ! (C - 1)) * uint (pixel_at img x y ! k)) input))
      = Finite False (of_int (0 + weighted_total C input k x y))"
  proof -
    have "weighted_total C input k x y < 2 ^ 24"
      using t(5)[of C k x y] by simp
    then show ?thesis
      unfolding weighted_total_def by (intro foldl_f32_add_of_int) simp_all
  qed
  ultimately show "weighted_sum C uint8_channel input k x y
      = Finite False (of_int (weighted_total C input k x y))"
    by (simp only: weighted_sum_def of_int_0 add_0_left)
qed

lemma uint8_quotient_exact:
  assumes "length input \<le> 257" and "0 < alpha_total C input x y"
  shows "native_cast uint8_channel
           (f32_div (weighted_sum C uint8_channel input k x y) (summed_weight C uint8_channel input x y))
         = Some (word_of_int (weighted_total C input k x y div alpha_total C input x y))"
proof -
  note t = uint8_totals[OF assms(1)]
  define p where "p = weighted_total C input k x y"
  define w where "w = alpha_total C input x y"
  have d: "p div w \<le> 255"
  proof -
    have "p div w \<le> (255 * w) div w"
      using t(4) assms(2) by (intro zdiv_mono1) (simp_all add: p_def w_def)
    then show ?thesis using assms(2) by (simp add: w_def)
  qed
  have d0: "0 \<le> p div w"
    using t(3) assms(2) by (simp add: p_def w_def pos_imp_zdiv_nonneg_iff)
  have "f32_trunc (round_f32 False (of_int p / of_int w)) = Some (p div w)"
    using t(3) assms(2) t(2) d unfolding p_def w_def by (rule f32_trunc_quotient)
  moreover have "f32_div (Finite False (of_int p)) (Finite False (of_int w))
      = round_f32 False (of_int p / of_int w)"
    using assms(2) by (simp add: w_def)
  ultimately have "f32_to_uint8 (f32_div (Finite False (of_int p)) (Finite False (of_int w)))
      = Some (word_of_int (p div w))"
    using d d0 by (simp add: f32_to_uint8_def)
  moreover have "native_cast uint8_channel = f32_to_uint8"
    by (simp add: uint8_channel_def)
  ultimately show ?thesis
    by (simp only: uint8_sums_exact[OF assms(1)] p_def w_def)
qed

lemma uint8_alpha_exact:
  assumes "length input \<le> 257"
  shows "native_cast uint8_channel
           (clamp (summed_weight C uint8_channel input x y)
              (channel_cast uint8_channel 0) (channel_cast uint8_channel 255))
         = Some (word_of_int (min (alpha_total C input x y) 255))"
proof -
  define w where "w = alpha_total C input x y"
  have w0: "0 \<le> w" using uint8_totals(1)[OF assms] by (simp add: w_def)
  have c: "channel_cast uint8_channel 0 = Finite False (of_int 0)"
    "channel_cast uint8_channel 255 = Finite False (of_int 255)"
    by (simp_all add: uint8_channel_def uint8_to_f32_def)
  have "clamp (Finite False (of_int w)) (Finite False (of_int 0)) (Finite False (of_int 255))
      = Finite False (of_int (min w 255))"
    unfolding clamp_of_int using w0 by (simp add: min_def)
  moreover have "f32_to_uint8 (Finite False (of_int (min w 255))) = Some (word_of_int (min w 255))"
    unfolding f32_to_uint8_of_int using w0 by simp
  moreover have "native_cast uint8_channel = f32_to_uint8"
    by (simp add: uint8_channel_def)
  ultimately show ?thesis
    by (simp only: uint8_sums_exact[OF assms] c w_def)
qed

text \<open>
  For 8-bit channels and at most 257 inputs, every sum of the accumulator is exact, and
  the rounded, truncated quotient is the integer quotient: where the summed alpha is
  positive, the output channel is the sum of the \<open>alpha_i * value_i,k\<close> divided by the sum
  of the \<open>alpha_i\<close>, rounded down; the output alpha is the sum of the \<open>alpha_i\<close>, at most
  255.
\<close>

lemma weighted_average_uint8_exact:
  assumes "wf_input num_channels input" and "k < num_channels - 1"
    and "x < cols (hd input)" and "y < rows (hd input)"
    and "length input \<le> 257" and "0 < alpha_total num_channels input x y"
  shows "\<exists>out. WeightedAverage num_channels uint8_channel 0 255 input input_header = Some out
           \<and> pixel_at out x y ! k =
               Some (word_of_int (weighted_total num_channels input k x y
                                    div alpha_total num_channels input x y))
           \<and> pixel_at out x y ! (num_channels - 1) =
               Some (word_of_int (min (alpha_total num_channels input x y) 255))"
  using WeightedAverage_pixel[OF assms(1,3,4), of uint8_channel 0 255 input_header] assms(2)
  by (auto simp only: uint8_quotient_exact[OF assms(5,6)] uint8_alpha_exact[OF assms(5)])

lemma weighted_average_uint8_exact_example:
  "\<exists>out. WeightedAverage 2 uint8_channel 0 255 [single_pixel [1, 1], single_pixel [2, 1]] [] = Some out
         \<and> pixel_at out 0 0 ! 0 = Some 1 \<and> pixel_at out 0 0 ! 1 = Some 2"
proof -
  let ?input = "[single_pixel [1, 1 :: 8 word], single_pixel [2, 1]]"
  have wf: "wf_input 2 ?input" by (simp add: wf_input_single_pixel)
  have a: "alpha_total 2 ?input 0 0 = 2" "weighted_total 2 ?input 0 0 0 = 3"
    by (simp_all add: alpha_total_def weighted_total_def single_pixel_def pixel_at_def)
  have "(0::nat) < 2 - 1" "0 < cols (hd ?input)" "0 < rows (hd ?input)" "length ?input \<le> 257"
    "0 < alpha_total 2 ?input 0 0"
    by (simp_all add: a) (simp_all add: single_pixel_def)
  from weighted_average_uint8_exact[OF wf this, of "[]"] show ?thesis
    by (simp only: a) simp
qed

section \<open>The claims about the reducer\<close>

text \<open>
  C1. For a nonempty list of input buffers of one size, a non-alpha channel \<open>k\<close> and a
  pixel location \<open>(x, y)\<close>, the reducer returns a buffer whose channel \<open>k\<close> at \<open>(x, y)\<close>
  is the \<^verbatim>\<open>float32\<close> sum of \<open>alpha_i * value_i,k\<close> divided in \<^verbatim>\<open>float32\<close> by the \<^verbatim>\<open>float32\<close>
  sum of the \<open>alpha_i\<close>, converted back to the channel type. The equation holds whatever
  the summed weight is, hence where it is positive. The witness is the example of the
  specification: alphas 100 and 50, values 200 and 0, output 133. For 8-bit channels
  lemma \<open>weighted_average_uint8_exact\<close> gives the same value in integer arithmetic.
\<close>

theorem weighted_average_channel:
  assumes "wf_input num_channels input" and "k < num_channels - 1"
    and "x < cols (hd input)" and "y < rows (hd input)"
  shows "\<exists>out. WeightedAverage num_channels ch cmin cmax input input_header = Some out
           \<and> pixel_at out x y ! k =
               native_cast ch (f32_div (weighted_sum num_channels ch input k x y)
                                       (summed_weight num_channels ch input x y))"
  using WeightedAverage_pixel[OF assms(1,3,4), of ch cmin cmax input_header] assms(2)
  by blast

theorem weighted_average_channel_witness:
  "wf_input 2 [single_pixel [200, 100 :: 8 word], single_pixel [0, 50]]
   \<and> (\<exists>out. WeightedAverage 2 uint8_channel 0 255
                [single_pixel [200, 100], single_pixel [0, 50]] [] = Some out
             \<and> pixel_at out 0 0 ! 0 = Some 133)"
proof -
  let ?input = "[single_pixel [200, 100 :: 8 word], single_pixel [0, 50]]"
  have wf: "wf_input 2 ?input"
    by (simp add: wf_input_single_pixel)
  have "native_cast uint8_channel
          (f32_div (weighted_sum 2 uint8_channel ?input 0 0 0) (summed_weight 2 uint8_channel ?input 0 0))
        = Some 133"
    by code_simp
  with weighted_average_channel[OF wf, of 0 0 0 uint8_channel 0 255 "[]"] wf
  show ?thesis by (simp add: single_pixel_def)
qed

text \<open>
  C2. For a nonempty list of input buffers of one size and a pixel location \<open>(x, y)\<close>,
  the alpha channel of the output at \<open>(x, y)\<close> is the \<^verbatim>\<open>float32\<close> sum of the input alphas,
  clamped to the range from \<open>cmin\<close> to \<open>cmax\<close> of the channel type and converted back to
  it. The witness: 8-bit alphas 100 and 50 give 150.
\<close>

theorem weighted_average_alpha:
  assumes "wf_input num_channels input" and "x < cols (hd input)" and "y < rows (hd input)"
  shows "\<exists>out. WeightedAverage num_channels ch cmin cmax input input_header = Some out
           \<and> pixel_at out x y ! (num_channels - 1) =
               native_cast ch (clamp (summed_weight num_channels ch input x y)
                                 (channel_cast ch cmin) (channel_cast ch cmax))"
  using WeightedAverage_pixel[OF assms, of ch cmin cmax input_header]
  by blast

theorem weighted_average_alpha_witness:
  "wf_input 2 [single_pixel [200, 100 :: 8 word], single_pixel [0, 50]]
   \<and> (\<exists>out. WeightedAverage 2 uint8_channel 0 255
                [single_pixel [200, 100], single_pixel [0, 50]] [] = Some out
             \<and> pixel_at out 0 0 ! (2 - 1) = Some 150)"
proof -
  let ?input = "[single_pixel [200, 100 :: 8 word], single_pixel [0, 50]]"
  have wf: "wf_input 2 ?input"
    by (simp add: wf_input_single_pixel)
  have "native_cast uint8_channel
          (clamp (summed_weight 2 uint8_channel ?input 0 0)
             (channel_cast uint8_channel 0) (channel_cast uint8_channel 255))
        = Some 150"
    by code_simp
  with weighted_average_alpha[OF wf, of 0 0 uint8_channel 0 255 "[]"] wf
  show ?thesis by (simp add: single_pixel_def)
qed

text \<open>
  C10. The list of tile headers does not influence the result of the reducer.
\<close>

theorem weighted_average_ignores_headers:
  "WeightedAverage num_channels ch cmin cmax input input_header
     = WeightedAverage num_channels ch cmin cmax input input_header'"
  by (simp add: WeightedAverage_def)


section \<open>Zero coverage\<close>

lemma f32_mul_zero_left:
  "is_zero a \<Longrightarrow> f32_mul a v = NaN \<or> is_zero (f32_mul a v)"
  by (cases a; cases v) (simp_all add: round_f32_def)

lemma f32_add_zero_or_nan:
  "a = NaN \<or> is_zero a \<Longrightarrow> b = NaN \<or> is_zero b \<Longrightarrow> f32_add a b = NaN \<or> is_zero (f32_add a b)"
  by (cases a; cases b) (simp_all add: signed_def)

lemma f32_add_zeros:
  "is_zero a \<Longrightarrow> is_zero b \<Longrightarrow> is_zero (f32_add a b)"
  by (cases a; cases b) (simp_all add: signed_def)

lemma foldl_f32_add_zero_or_nan:
  assumes "a = NaN \<or> is_zero a" and "\<forall>v \<in> set vs. v = NaN \<or> is_zero v"
  shows "foldl f32_add a vs = NaN \<or> is_zero (foldl f32_add a vs)"
  using assms
proof (induction vs arbitrary: a)
  case Nil
  then show ?case by simp
next
  case (Cons v vs)
  have "f32_add a v = NaN \<or> is_zero (f32_add a v)"
    using Cons.prems by (intro f32_add_zero_or_nan) simp_all
  then show ?case
    using Cons.IH[of "f32_add a v"] Cons.prems(2) by simp
qed

lemma foldl_f32_add_zeros:
  assumes "is_zero a" and "\<forall>v \<in> set vs. is_zero v"
  shows "is_zero (foldl f32_add a vs)"
  using assms
proof (induction vs arbitrary: a)
  case Nil
  then show ?case by simp
next
  case (Cons v vs)
  have "is_zero (f32_add a v)"
    using Cons.prems by (intro f32_add_zeros) simp_all
  then show ?case
    using Cons.IH[of "f32_add a v"] Cons.prems(2) by simp
qed

lemma f32_div_zero_by_zero:
  "a = NaN \<or> is_zero a \<Longrightarrow> is_zero b \<Longrightarrow> f32_div a b = NaN"
  by (cases a; cases b) simp_all

lemma zero_coverage_quotient:
  assumes "\<forall>img \<in> set input. is_zero (alpha_at C ch img x y)"
  shows "f32_div (weighted_sum C ch input k x y) (summed_weight C ch input x y) = NaN"
proof (rule f32_div_zero_by_zero)
  show "weighted_sum C ch input k x y = NaN \<or> is_zero (weighted_sum C ch input k x y)"
    unfolding weighted_sum_def
  proof (rule foldl_f32_add_zero_or_nan)
    show "Finite False 0 = NaN \<or> is_zero (Finite False 0)" by simp
    show "\<forall>v \<in> set (map (\<lambda>img. f32_mul (alpha_at C ch img x y) (value_at ch img k x y)) input).
            v = NaN \<or> is_zero v"
      using assms f32_mul_zero_left by auto
  qed
  show "is_zero (summed_weight C ch input x y)"
    unfolding summed_weight_def
    by (rule foldl_f32_add_zeros) (use assms in auto)
qed

text \<open>
  C5. Where every input has alpha zero at a pixel, the summed weight is zero and the
  program still divides by it: the quotient of every non-alpha channel is NaN, which is
  then converted to the channel type. Nothing in \<^verbatim>\<open>WeightedAverage::operator()\<close> guards the
  division. For an 8-bit channel the conversion of NaN is undefined.
\<close>

theorem zero_coverage_divides_by_zero:
  assumes "wf_input num_channels input" and "k < num_channels - 1"
    and "x < cols (hd input)" and "y < rows (hd input)"
    and "\<forall>img \<in> set input. is_zero (alpha_at num_channels ch img x y)"
  shows "f32_div (weighted_sum num_channels ch input k x y)
                 (summed_weight num_channels ch input x y) = NaN
       \<and> (\<exists>out. WeightedAverage num_channels ch cmin cmax input input_header = Some out
               \<and> pixel_at out x y ! k = native_cast ch NaN)"
  using WeightedAverage_pixel[OF assms(1,3,4), of ch cmin cmax input_header] assms(2)
    zero_coverage_quotient[OF assms(5), of k]
  by auto

theorem zero_coverage_divides_by_zero_witness:
  "wf_input 2 [single_pixel [200, 0 :: 8 word]]
   \<and> is_zero (alpha_at 2 uint8_channel (single_pixel [200, 0]) 0 0)
   \<and> (\<exists>out. WeightedAverage 2 uint8_channel 0 255 [single_pixel [200, 0]] [] = Some out
             \<and> pixel_at out 0 0 ! 0 = None)"
proof -
  let ?input = "[single_pixel [200, 0 :: 8 word]]"
  have wf: "wf_input 2 ?input"
    by (simp add: wf_input_single_pixel1)
  have z: "is_zero (alpha_at 2 uint8_channel (single_pixel [200, 0]) 0 0)"
    by (simp add: alpha_at_def pixel_at_def single_pixel_def uint8_channel_def uint8_to_f32_def)
  then have a: "\<forall>img \<in> set ?input. is_zero (alpha_at 2 uint8_channel img 0 0)"
    by simp
  have n: "native_cast uint8_channel NaN = None"
    by (simp add: uint8_channel_def f32_to_uint8_def)
  from zero_coverage_divides_by_zero[OF wf _ _ _ a, of 0 0 255 "[]"] wf z n
  show ?thesis by (simp add: single_pixel_def)
qed

section \<open>A single input\<close>

lemma single_input_sums:
  "summed_weight C ch [img] x y = f32_add (Finite False 0) (alpha_at C ch img x y)"
  "weighted_sum C ch [img] k x y =
     f32_add (Finite False 0) (f32_mul (alpha_at C ch img x y) (value_at ch img k x y))"
  by (simp_all add: summed_weight_def weighted_sum_def)

lemma single_input_uint8_channel:
  assumes "pixel_at img x y ! (C - 1) \<noteq> 0"
  shows "native_cast uint8_channel
           (f32_div (weighted_sum C uint8_channel [img] k x y) (summed_weight C uint8_channel [img] x y))
         = Some (pixel_at img x y ! k)"
proof -
  let ?a = "pixel_at img x y ! (C - 1)" and ?v = "pixel_at img x y ! k"
  have "weighted_sum C uint8_channel [img] k x y = Finite False (of_int (uint ?a * uint ?v))"
    by (simp only: single_input_sums alpha_at_def value_at_def uint8_channel_def
          channel.simps uint8_single_product)
  moreover have "summed_weight C uint8_channel [img] x y = uint8_to_f32 ?a"
    by (simp only: single_input_sums alpha_at_def uint8_channel_def channel.simps uint8_single_weight)
  ultimately show ?thesis
    by (simp only: uint8_single_quotient[OF assms] uint8_channel_def channel.simps f32_to_uint8_inverse)
qed

lemma single_input_uint8_alpha:
  "native_cast uint8_channel
     (clamp (summed_weight C uint8_channel [img] x y)
        (channel_cast uint8_channel cmin) (channel_cast uint8_channel cmax))
   = Some (clamp_uint8 (pixel_at img x y ! (C - 1)) cmin cmax)"
  by (simp only: single_input_sums alpha_at_def uint8_channel_def channel.simps
        uint8_single_weight uint8_clamp)

text \<open>
  C8, for 8-bit channels. Reducing the one buffer \<open>img\<close>, whose alpha is nonzero at
  every pixel, gives a buffer of the same size with the non-alpha channels of \<open>img\<close> and
  with the alpha of \<open>img\<close> clamped to the range from \<open>cmin\<close> to \<open>cmax\<close>.
\<close>

theorem single_input_identity_uint8:
  assumes "wf_image num_channels img"
    and "\<forall>x < cols img. \<forall>y < rows img. pixel_at img x y ! (num_channels - 1) \<noteq> 0"
  shows "\<exists>out. WeightedAverage num_channels uint8_channel cmin cmax [img] input_header = Some out
           \<and> cols out = cols img \<and> rows out = rows img
           \<and> (\<forall>x < cols img. \<forall>y < rows img.
                 (\<forall>k < num_channels - 1. pixel_at out x y ! k = Some (pixel_at img x y ! k))
                 \<and> pixel_at out x y ! (num_channels - 1)
                     = Some (clamp_uint8 (pixel_at img x y ! (num_channels - 1)) cmin cmax))"
proof -
  have wf: "wf_input num_channels [img]"
    using assms(1) by (simp add: wf_input_def same_size_def)
  obtain out where out: "WeightedAverage num_channels uint8_channel cmin cmax [img] input_header = Some out"
    and size: "cols out = cols img" "rows out = rows img"
    using WeightedAverage_Some[of "[img]" num_channels uint8_channel cmin cmax input_header] by auto
  have "(\<forall>k < num_channels - 1. pixel_at out x y ! k = Some (pixel_at img x y ! k))
        \<and> pixel_at out x y ! (num_channels - 1)
             = Some (clamp_uint8 (pixel_at img x y ! (num_channels - 1)) cmin cmax)"
    if xy: "x < cols img" "y < rows img" for x y
  proof -
    have a: "pixel_at img x y ! (num_channels - 1) \<noteq> 0"
      using assms(2) xy by simp
    from WeightedAverage_pixel[OF wf, of x y uint8_channel cmin cmax input_header] xy out
    have "\<forall>k < num_channels - 1. pixel_at out x y ! k =
             native_cast uint8_channel
               (f32_div (weighted_sum num_channels uint8_channel [img] k x y)
                        (summed_weight num_channels uint8_channel [img] x y))"
      and "pixel_at out x y ! (num_channels - 1) =
             native_cast uint8_channel
               (clamp (summed_weight num_channels uint8_channel [img] x y)
                  (channel_cast uint8_channel cmin) (channel_cast uint8_channel cmax))"
      by auto
    then show ?thesis
      by (simp only: single_input_uint8_channel[OF a] single_input_uint8_alpha)
  qed
  with out size show ?thesis by blast
qed

theorem single_input_identity_uint8_witness:
  "wf_image 4 \<lparr>cols = 2, rows = 1, data = [[10, 20, 30, 40 :: 8 word], [7, 0, 255, 1]]\<rparr>
   \<and> (\<exists>out. WeightedAverage 4 uint8_channel 0 255
                [\<lparr>cols = 2, rows = 1, data = [[10, 20, 30, 40], [7, 0, 255, 1]]\<rparr>] [] = Some out
             \<and> pixel_at out 1 0 ! 0 = Some 7 \<and> pixel_at out 1 0 ! 1 = Some 0
             \<and> pixel_at out 1 0 ! 2 = Some 255 \<and> pixel_at out 1 0 ! 3 = Some 1)"
proof -
  let ?img = "\<lparr>cols = 2, rows = 1, data = [[10, 20, 30, 40 :: 8 word], [7, 0, 255, 1]]\<rparr>"
  have wf: "wf_image 4 ?img"
    by (simp add: wf_image_def)
  have nz: "\<forall>x < cols ?img. \<forall>y < rows ?img. pixel_at ?img x y ! (4 - 1) \<noteq> 0"
    by (auto simp: pixel_at_def less_2_cases_iff)
  from single_input_identity_uint8[OF wf nz, of 0 255 "[]"]
  obtain out where out: "WeightedAverage 4 uint8_channel 0 255 [?img] [] = Some out"
    and px: "\<forall>x < cols ?img. \<forall>y < rows ?img.
                 (\<forall>k < 4 - 1. pixel_at out x y ! k = Some (pixel_at ?img x y ! k))
                 \<and> pixel_at out x y ! (4 - 1) = Some (clamp_uint8 (pixel_at ?img x y ! (4 - 1)) 0 255)"
    by blast
  have "(1::nat) < cols ?img" "(0::nat) < rows ?img" by simp_all
  with px have at: "(\<forall>k < 4 - 1. pixel_at out 1 0 ! k = Some (pixel_at ?img 1 0 ! k))
      \<and> pixel_at out 1 0 ! (4 - 1) = Some (clamp_uint8 (pixel_at ?img 1 0 ! (4 - 1)) 0 255)"
    by blast
  have "pixel_at out 1 0 ! 0 = Some (pixel_at ?img 1 0 ! 0)"
    "pixel_at out 1 0 ! 1 = Some (pixel_at ?img 1 0 ! 1)"
    "pixel_at out 1 0 ! 2 = Some (pixel_at ?img 1 0 ! 2)"
    using at by simp_all
  moreover have "pixel_at out 1 0 ! 3 = Some (clamp_uint8 (pixel_at ?img 1 0 ! 3) 0 255)"
    using at by simp
  ultimately have "pixel_at out 1 0 ! 0 = Some 7 \<and> pixel_at out 1 0 ! 1 = Some 0
      \<and> pixel_at out 1 0 ! 2 = Some 255 \<and> pixel_at out 1 0 ! 3 = Some 1"
    by (simp add: pixel_at_def clamp_uint8_def)
  with out wf show ?thesis by blast
qed

text \<open>
  C8 as stated, for every channel type, fails for the two other channel types the program
  supports. With 16-bit channels, alpha 10000 and value 26845 give the product
  268450000, which \<^verbatim>\<open>float32\<close> rounds to 268449984; the quotient 26844.998 is stored as
  26844. With \<^verbatim>\<open>float32\<close> channels, alpha 0.1 and value 13 give back 13.00000095.
\<close>

theorem single_input_identity_counterexample:
  "WeightedAverage 2 int16_channel (- 32768) 32767 [single_pixel [26845, 10000]] []
       = Some (single_pixel [Some 26844, Some 10000])
   \<and> WeightedAverage 2 float32_channel (Finite False 0) (Finite False 1)
         [single_pixel [Finite False 13, Finite False (13421773 / 134217728)]] []
       = Some (single_pixel [Some (Finite False (13631489 / 1048576)),
                             Some (Finite False (13421773 / 134217728))])"
  by code_simp

section \<open>The claims about the aggregation loop and the dispatch\<close>

text \<open>The cells \<^verbatim>\<open>apply_reduce\<close> visits for a job are those of \<open>job_cells\<close>, in order.\<close>

lemma apply_reduce_job_cells:
  "apply_reduce T P (assign (partition_grid S) job_id num_jobs) opt reduce st
     = process_cells T P opt reduce st (job_cells S job_id num_jobs)"
  by (simp add: apply_reduce_def job_cells_def)

lemma logged_simps [simp]:
  "store (logged c st) = store st"
  "calls (logged c st) = calls st @ [c]"
  by (simp_all add: logged_def)

text \<open>
  C6. When the query for a cell returns no tile record, or throws \<^verbatim>\<open>TileNotFoundErr\<close>,
  processing the cell returns normally, the only call made on the store is the query
  itself, so none of the three write calls, the store is unchanged, and the loop goes on
  with the next cell.
\<close>

theorem empty_query_skips_cell:
  assumes "search_by_location P (store st) (fst location) (snd location) (opt_level opt)
              (opt_start_trans_id opt) (opt_end_trans_id opt) True = Inr []
         \<or> search_by_location P (store st) (fst location) (snd location) (opt_level opt)
              (opt_start_trans_id opt) (opt_end_trans_id opt) True = Inl TileNotFoundErr"
  shows "\<exists>st1. process_cell T P opt reduce st location = Inr st1
           \<and> store st1 = store st
           \<and> calls st1 = calls st @ [SearchByLocation (fst location) (snd location) (opt_level opt)
                                        (opt_start_trans_id opt) (opt_end_trans_id opt) True]
           \<and> filter is_write (calls st1) = filter is_write (calls st)
           \<and> process_cells T P opt reduce st (location # others) = process_cells T P opt reduce st1 others"
proof -
  have "poll_tiles P opt (store st) location = Inr []"
    using assms by (auto simp: poll_tiles_def)
  then have "process_cell T P opt reduce st location =
      Inr (logged (SearchByLocation (fst location) (snd location) (opt_level opt)
                     (opt_start_trans_id opt) (opt_end_trans_id opt) True) st)"
    by (simp add: process_cell_def)
  then show ?thesis
    by (simp add: is_write_def)
qed

theorem empty_query_skips_cell_witness:
  "process_cells PixelGrayA_uint8 (empty_plate VW_PIXEL_GRAYA VW_CHANNEL_UINT8 3) (options_at_level 1)
      (\<lambda>tiles headers. 0) new_run [(0, 0), (0, 1)]
   = Inr \<lparr>store = (), calls = [SearchByLocation 0 0 1 0 0 True, SearchByLocation 0 1 1 0 0 True]\<rparr>"
proof -
  let ?P = "empty_plate VW_PIXEL_GRAYA VW_CHANNEL_UINT8 3" and ?opt = "options_at_level 1"
  have q: "search_by_location ?P (store st) (fst location) (snd location) (opt_level ?opt)
              (opt_start_trans_id ?opt) (opt_end_trans_id ?opt) True = Inr []
         \<or> search_by_location ?P (store st) (fst location) (snd location) (opt_level ?opt)
              (opt_start_trans_id ?opt) (opt_end_trans_id ?opt) True = Inl TileNotFoundErr"
    for st :: "(unit, nat) run" and location
    by (simp add: empty_plate_def)
  from empty_query_skips_cell[OF q, of PixelGrayA_uint8 "\<lambda>tiles headers. 0" new_run "(0, 0)" "[(0, 1)]"]
  obtain st1 where st1: "store st1 = ()"
      "calls st1 = [SearchByLocation 0 0 1 0 0 True]"
      "process_cells PixelGrayA_uint8 ?P ?opt (\<lambda>tiles headers. 0) new_run [(0, 0), (0, 1)]
         = process_cells PixelGrayA_uint8 ?P ?opt (\<lambda>tiles headers. 0) st1 [(0, 1)]"
    by (auto simp: new_run_def options_at_level_def)
  from empty_query_skips_cell[OF q, of PixelGrayA_uint8 "\<lambda>tiles headers. 0" st1 "(0, 1)" "[]"]
  obtain st2 where st2: "store st2 = ()"
      "calls st2 = [SearchByLocation 0 0 1 0 0 True, SearchByLocation 0 1 1 0 0 True]"
      "process_cells PixelGrayA_uint8 ?P ?opt (\<lambda>tiles headers. 0) st1 [(0, 1)] = Inr st2"
    by (auto simp: st1 options_at_level_def)
  show ?thesis
    using st1(3) st2 by simp
qed

text \<open>
  C7, as the program has it. The level is checked first: a level outside
  \<open>[0, num_levels)\<close> makes \<^verbatim>\<open>do_run\<close> throw \<^verbatim>\<open>ArgumentErr\<close>. With a level inside that
  range, a store whose pixel format and channel type are not in the table makes
  \<^verbatim>\<open>do_run\<close> throw \<^verbatim>\<open>InputErr\<close>, and a store whose combination is in the table makes it run
  \<^verbatim>\<open>apply_reduce\<close> on this job's work units. In both failures the run is returned as it
  was: no call has been made on the store, so no cell was queried.
\<close>

theorem unsupported_format_fails_first:
  "(opt_level opt < 0 \<or> num_levels P (store st) \<le> opt_level opt
      \<longrightarrow> do_run P opt reduce st = Inl (ArgumentErr, st))
   \<and> (0 \<le> opt_level opt \<and> opt_level opt < num_levels P (store st)
        \<and> \<not> supported (pixel_format P (store st)) (channel_type P (store st))
      \<longrightarrow> do_run P opt reduce st = Inl (InputErr, st))
   \<and> (0 \<le> opt_level opt \<and> opt_level opt < num_levels P (store st)
        \<and> supported (pixel_format P (store st)) (channel_type P (store st))
      \<longrightarrow> (\<exists>T. do_run P opt reduce st =
                 apply_reduce T P (assign (partition_grid (2 ^ nat (opt_level opt)))
                                     (opt_job_id opt) (opt_num_jobs opt)) opt reduce st))"
proof (intro conjI impI)
  assume "opt_level opt < 0 \<or> num_levels P (store st) \<le> opt_level opt"
  then show "do_run P opt reduce st = Inl (ArgumentErr, st)"
    by (simp add: do_run_def)
next
  assume "0 \<le> opt_level opt \<and> opt_level opt < num_levels P (store st)
        \<and> \<not> supported (pixel_format P (store st)) (channel_type P (store st))"
  then show "do_run P opt reduce st = Inl (InputErr, st)"
    by (auto simp: do_run_def supported_def Let_def
          split: PixelFormatEnum.splits ChannelTypeEnum.splits)
next
  assume "0 \<le> opt_level opt \<and> opt_level opt < num_levels P (store st)
        \<and> supported (pixel_format P (store st)) (channel_type P (store st))"
  then show "\<exists>T. do_run P opt reduce st =
                 apply_reduce T P (assign (partition_grid (2 ^ nat (opt_level opt)))
                                     (opt_job_id opt) (opt_num_jobs opt)) opt reduce st"
    by (auto simp: do_run_def supported_def Let_def partition_grid_def
          split: PixelFormatEnum.splits ChannelTypeEnum.splits)
qed

theorem unsupported_format_fails_first_witness:
  "\<not> supported VW_PIXEL_RGBA VW_CHANNEL_INT16
   \<and> do_run (empty_plate VW_PIXEL_RGBA VW_CHANNEL_INT16 3) (options_at_level 2) (\<lambda>tiles headers. 0) new_run
       = Inl (InputErr, new_run)
   \<and> do_run (empty_plate VW_PIXEL_GRAYA VW_CHANNEL_INT16 3) (options_at_level 3) (\<lambda>tiles headers. 0) new_run
       = Inl (ArgumentErr, new_run)"
  using unsupported_format_fails_first[of "options_at_level 2" "empty_plate VW_PIXEL_RGBA VW_CHANNEL_INT16 3"
          new_run "\<lambda>tiles headers. 0"]
    unsupported_format_fails_first[of "options_at_level 3" "empty_plate VW_PIXEL_GRAYA VW_CHANNEL_INT16 3"
          new_run "\<lambda>tiles headers. 0"]
  by (simp add: supported_def empty_plate_def options_at_level_def)

theorem unsupported_format_counterexample:
  "\<not> supported VW_PIXEL_RGBA VW_CHANNEL_INT16
   \<and> do_run (empty_plate VW_PIXEL_RGBA VW_CHANNEL_INT16 3) (options_at_level (- 1)) (\<lambda>tiles headers. 0) new_run
       = Inl (ArgumentErr, new_run)
   \<and> do_run (empty_plate VW_PIXEL_RGBA VW_CHANNEL_INT16 3) (options_at_level (- 1)) (\<lambda>tiles headers. 0) new_run
       \<noteq> Inl (InputErr, new_run)"
  by (simp add: supported_def do_run_def empty_plate_def options_at_level_def)

end
